theory Spec2Isabelle
  imports Main
begin

section \<open>The graph IR as the pass sees it\<close>

text \<open>
  The pass \<open>ToONNX\<close> of \<^verbatim>\<open>torch/csrc/jit/passes/onnx.cpp\<close> rewrites the graph of a
  tracing state into a new graph. Nodes are heap objects addressed by pointers; a
  pointer is tagged with the graph that allocated the node. \<open>Orig\<close> nodes are the ones
  reachable from the tracing state before the pass, \<open>Fresh\<close> nodes are the ones that
  the new graph allocates (\<open>Fresh k\<close> is the node with unique number \<open>k\<close>).
  A nullable \<^verbatim>\<open>Node*\<close> is a \<open>node_ref option\<close>.
\<close>

datatype node_ref = Orig nat | Fresh nat

fun is_orig :: "node_ref \<Rightarrow> bool" where
  "is_orig (Orig k) = True"
| "is_orig (Fresh k) = False"

datatype ty = MultiType | HandleType | TensorType "nat list"

datatype node_kind = kSelect | kCppOp | kPythonOp | kUndefined | kSym string

fun symbolToString :: "node_kind \<Rightarrow> string" where
  "symbolToString kSelect = ''Select''"
| "symbolToString kCppOp = ''CppOp''"
| "symbolToString kPythonOp = ''PythonOp''"
| "symbolToString kUndefined = ''Undefined''"
| "symbolToString (kSym s) = s"

text \<open>
  One record for \<^verbatim>\<open>Node\<close> and its subclasses \<^verbatim>\<open>CppOp\<close> and \<^verbatim>\<open>PythonOp\<close>:
  \<open>name\<close> is what \<^verbatim>\<open>name()\<close> returns, \<open>fn\<close> identifies the autograd function of a
  \<^verbatim>\<open>CppOp\<close>, \<open>pyobj\<close> the Python object of a \<^verbatim>\<open>PythonOp\<close>, \<open>cconv\<close> and
  \<open>scalar_args\<close> are its calling convention and its scalar arguments (opaque Python
  objects). A use is the pair of the user and the input slot.
\<close>

record node =
  kind :: node_kind
  inputs :: "node_ref list"
  type_opt :: "ty option"
  uses :: "(node_ref \<times> nat) list"
  stage :: nat
  source_location :: "string option"
  attrs :: "(string \<times> int) list"
  name :: string
  fn :: nat
  pyobj :: nat
  cconv :: string
  scalar_args :: "nat list"

text \<open>
  A graph holds its inputs, its nodes in definition order, its outputs and the stage
  that newly created nodes receive. \<^verbatim>\<open>registerOutput\<close> is handed a nullable pointer,
  so the outputs are nullable.
\<close>

record graph =
  graph_inputs :: "node_ref list"
  graph_nodes :: "node_ref list"
  graph_outputs :: "node_ref option list"
  graph_stage :: nat

definition empty_graph :: graph where
  "empty_graph = \<lparr>graph_inputs = [], graph_nodes = [], graph_outputs = [], graph_stage = 0\<rparr>"

text \<open>
  The tracing state. An \<^verbatim>\<open>unordered_map\<close> that the pass iterates is the list of its
  entries in iteration order; the keys of the buffer map are opaque addresses.
\<close>

record tracing_state =
  is_expired :: bool
  graph :: graph
  buffer_map :: "(nat \<times> node_ref) list"

datatype error =
    StaleTraceState
  | DanglingReference
  | UsedElidedOutput
  | ArityMismatch string nat nat
  | DroppedUsedOutput string nat
  | BadSymbolicResult string
  | BadCallingConvention
  | AssertionFailure string
  | MissingOutputMapping
  | OracleRaised string
  | EmptyOutputList

text \<open>
  \<open>ArityMismatch op expected actual\<close> and \<open>DroppedUsedOutput op i\<close> carry what the
  messages of the two \<^verbatim>\<open>runtime_error\<close>s of \<^verbatim>\<open>setOutputs\<close> print. \<open>MissingOutputMapping\<close>
  is the \<^verbatim>\<open>out_of_range\<close> of \<^verbatim>\<open>env.at\<close>. \<open>EmptyOutputList\<close> stands for
  \<^verbatim>\<open>outputs().back()\<close> on a multi-output node without outputs, which C++ leaves
  undefined. \<open>OracleRaised\<close> is an exception that a lowering routine throws.
\<close>

datatype call = Symbolic node_ref | RunSymbolicMethod node_ref | RunSymbolicFunction node_ref

text \<open>
  Everything the pass reads or writes: the node heap, the counter of the new graph's
  unique numbers, the locals \<open>new_graph\<close>, \<open>new_buffer_map\<close> and \<open>env\<close>, the tracing state,
  and the log of the lowering routines invoked so far (a ghost field: the pass never
  reads it). In \<open>env\<close>, \<open>None\<close> is a missing entry, \<open>Some None\<close> an entry holding
  \<^verbatim>\<open>nullptr\<close>.
\<close>

record pstate =
  heap :: "node_ref \<Rightarrow> node"
  next_unique :: nat
  new_graph :: graph
  new_buffer_map :: "(nat \<times> node_ref) list"
  env :: "node_ref \<Rightarrow> node_ref option option"
  calls :: "call list"
  state :: tracing_state

section \<open>Exceptions and sequencing\<close>

text \<open>
  A statement maps a state to its outcome and the state it leaves: \<open>Inl e\<close> is the
  exception \<open>e\<close>, thrown in the state returned with it.
\<close>

type_synonym 'a stmt = "pstate \<Rightarrow> (error + 'a) \<times> pstate"

definition throw :: "error \<Rightarrow> 'a stmt" where
  "throw e s = (Inl e, s)"

definition modify :: "(pstate \<Rightarrow> pstate) \<Rightarrow> unit stmt" where
  "modify f s = (Inr (), f s)"

definition lift :: "error + 'a \<Rightarrow> 'a stmt" where
  "lift r s = (r, s)"

definition bindE :: "'a stmt \<Rightarrow> ('a \<Rightarrow> 'b stmt) \<Rightarrow> 'b stmt" where
  "bindE m f s = (case m s of (Inl e, s') \<Rightarrow> (Inl e, s') | (Inr x, s') \<Rightarrow> f x s')"

fun forE :: "'a list \<Rightarrow> ('a \<Rightarrow> unit stmt) \<Rightarrow> unit stmt" where
  "forE [] body s = (Inr (), s)"
| "forE (x # xs) body s =
     (case body x s of (Inl e, s') \<Rightarrow> (Inl e, s') | (Inr _, s') \<Rightarrow> forE xs body s')"

section \<open>Node accessors\<close>

text \<open>
  Modelled from the spec: \<^verbatim>\<open>Node::hasMultipleOutputs()\<close> and \<^verbatim>\<open>Node::outputs()\<close>
  belong to the graph library, which is not part of the sources. A node has multiple
  outputs when its type is the multi-output type (the way \<open>hasHandleOutput\<close> tells a
  handle by the kind of its type). A single-output node is its own output; the
  outputs of a multi-output node are the nodes that select them, which are its users
  (\<open>cloneNode\<close> clones "its Selects" by walking \<^verbatim>\<open>node->uses()\<close>).
\<close>

definition hasMultipleOutputs :: "node \<Rightarrow> bool" where
  "hasMultipleOutputs nd = (type_opt nd = Some MultiType)"

definition outputs :: "(node_ref \<Rightarrow> node) \<Rightarrow> node_ref \<Rightarrow> node_ref list" where
  "outputs h n = (if hasMultipleOutputs (h n) then map fst (uses (h n)) else [n])"

definition hasHandleOutput :: "(node_ref \<Rightarrow> node) \<Rightarrow> node_ref \<Rightarrow> error + bool" where
  "hasHandleOutput h n =
     (if \<not> hasMultipleOutputs (h n) then Inr False
      else case outputs h n of
        [] \<Rightarrow> Inl EmptyOutputList
      | _ \<Rightarrow> Inr (type_opt (h (last (outputs h n))) = Some HandleType))"

definition hasUsedHandle :: "(node_ref \<Rightarrow> node) \<Rightarrow> node_ref \<Rightarrow> error + bool" where
  "hasUsedHandle h n =
     (case hasHandleOutput h n of
        Inl e \<Rightarrow> Inl e
      | Inr False \<Rightarrow> Inr False
      | Inr True \<Rightarrow> Inr (uses (h (last (outputs h n))) \<noteq> []))"

section \<open>The environment and cloning\<close>

definition envFn :: "(node_ref \<Rightarrow> node_ref option option) \<Rightarrow> node_ref \<Rightarrow> error + node_ref" where
  "envFn e n =
     (case e n of
        None \<Rightarrow> Inl DanglingReference
      | Some None \<Rightarrow> Inl UsedElidedOutput
      | Some (Some v) \<Rightarrow> Inr v)"

text \<open>\<^verbatim>\<open>fmap(node->inputs(), envFn)\<close>: the inputs resolved in order, up to the first fault.\<close>

fun fmap :: "node_ref list \<Rightarrow> (node_ref \<Rightarrow> error + node_ref) \<Rightarrow> error + node_ref list" where
  "fmap [] f = Inr []"
| "fmap (i # is) f =
     (case f i of
        Inl e \<Rightarrow> Inl e
      | Inr v \<Rightarrow> (case fmap is f of Inl e \<Rightarrow> Inl e | Inr vs \<Rightarrow> Inr (v # vs)))"

text \<open>
  Modelled from the spec: \<^verbatim>\<open>Graph::createClone(n, node_map)\<close> is not part of the
  sources. It allocates a node of the new graph that copies the kind, the type, the
  attributes and the subclass data of \<open>n\<close>, receives the stage that the new graph
  gives to new nodes, and then wires the inputs of \<open>n\<close>, each resolved by \<open>node_map\<close>,
  one after the other. The use lists of the nodes of the new graph are kept by the
  graph library and never read by the pass; they are left empty.
\<close>

definition clone_record :: "node \<Rightarrow> node_ref list \<Rightarrow> nat \<Rightarrow> node" where
  "clone_record nd vs st = nd\<lparr>inputs := vs, uses := [], stage := st\<rparr>"

definition allocClone :: "node_ref \<Rightarrow> pstate \<Rightarrow> node_ref \<times> pstate" where
  "allocClone n s =
     (let r = Fresh (next_unique s) in
      (r, s\<lparr>heap := (heap s)(r := clone_record (heap s n) [] (graph_stage (new_graph s))),
            next_unique := Suc (next_unique s)\<rparr>))"

definition addInput :: "node_ref \<Rightarrow> node_ref \<Rightarrow> pstate \<Rightarrow> pstate" where
  "addInput r v s = s\<lparr>heap := (heap s)(r := (heap s r)\<lparr>inputs := inputs (heap s r) @ [v]\<rparr>)\<rparr>"

fun addInputs :: "node_ref \<Rightarrow> node_ref list \<Rightarrow> (node_ref \<Rightarrow> error + node_ref) \<Rightarrow> unit stmt" where
  "addInputs r [] node_map s = (Inr (), s)"
| "addInputs r (i # is) node_map s =
     (case node_map i of
        Inl e \<Rightarrow> (Inl e, s)
      | Inr v \<Rightarrow> addInputs r is node_map (addInput r v s))"

definition createClone :: "node_ref \<Rightarrow> (node_ref \<Rightarrow> error + node_ref) \<Rightarrow> node_ref stmt" where
  "createClone n node_map s =
     (let (r, s1) = allocClone n s in
      case addInputs r (inputs (heap s n)) node_map s1 of
        (Inl e, s2) \<Rightarrow> (Inl e, s2)
      | (Inr _, s2) \<Rightarrow> (Inr r, s2))"

text \<open>
  Modelled from the spec: \<^verbatim>\<open>Graph::appendNode\<close>, \<^verbatim>\<open>Graph::addInput\<close> and
  \<^verbatim>\<open>Graph::registerOutput\<close> are not part of the sources either; they append to the
  node list, the input list and the output list of the graph.
\<close>

definition appendNode :: "node_ref \<Rightarrow> unit stmt" where
  "appendNode n = modify (\<lambda>s. s\<lparr>new_graph := (new_graph s)\<lparr>graph_nodes := graph_nodes (new_graph s) @ [n]\<rparr>\<rparr>)"

definition set_env :: "node_ref \<Rightarrow> node_ref option \<Rightarrow> unit stmt" where
  "set_env k v = modify (\<lambda>s. s\<lparr>env := (env s)(k := Some v)\<rparr>)"

text \<open>
  The lambda \<open>cloneNode\<close>: the node, and for a multi-output node each of its users;
  \<open>clone_user\<close> is the body of its loop over \<^verbatim>\<open>node->uses()\<close>.
\<close>

definition clone_user :: "node_ref \<times> nat \<Rightarrow> unit stmt" where
  "clone_user u =
     bindE (\<lambda>s. createClone (fst u) (envFn (env s)) s) (\<lambda>new_node.
     bindE (appendNode new_node) (\<lambda>_.
     set_env (fst u) (Some new_node)))"

definition cloneNode :: "node_ref \<Rightarrow> unit stmt" where
  "cloneNode n =
     bindE (\<lambda>s. createClone n (envFn (env s)) s) (\<lambda>n'.
     bindE (set_env n (Some n')) (\<lambda>_.
     bindE (appendNode n') (\<lambda>_ s.
       if hasMultipleOutputs (heap s n)
       then forE (uses (heap s n)) clone_user s
       else (Inr (), s))))"

section \<open>Output reconciliation\<close>

text \<open>
  The body of the loop of \<open>setOutputs\<close> at position \<open>i\<close>, for the old output \<open>old\<close> and
  the entry \<open>out\<close> of the list that the symbolic returned.
\<close>

definition setType :: "node_ref \<Rightarrow> ty option \<Rightarrow> unit stmt" where
  "setType n t = modify (\<lambda>s. s\<lparr>heap := (heap s)(n := (heap s n)\<lparr>type_opt := t\<rparr>)\<rparr>)"

definition setSourceLocation :: "node_ref \<Rightarrow> string option \<Rightarrow> unit stmt" where
  "setSourceLocation n l = modify (\<lambda>s. s\<lparr>heap := (heap s)(n := (heap s n)\<lparr>source_location := l\<rparr>)\<rparr>)"

definition setOutputs_entry ::
  "string \<Rightarrow> node_ref \<Rightarrow> nat \<times> node_ref \<times> node_ref option \<Rightarrow> unit stmt" where
  "setOutputs_entry op_name n = (\<lambda>(i, old, out).
     case out of
       Some out_node \<Rightarrow>
         bindE (\<lambda>s. if type_opt (heap s out_node) = None
                     then setType out_node (type_opt (heap s old)) s
                     else (Inr (), s)) (\<lambda>_.
         bindE (\<lambda>s. setSourceLocation out_node (source_location (heap s n)) s) (\<lambda>_.
         set_env old (Some out_node)))
     | None \<Rightarrow>
         bindE (set_env old None) (\<lambda>_ s.
           if uses (heap s old) \<noteq> [] then (Inl (DroppedUsedOutput op_name i), s)
           else (Inr (), s)))"

definition setOutputs :: "string \<Rightarrow> node_ref \<Rightarrow> node_ref option list \<Rightarrow> unit stmt" where
  "setOutputs op_name n outs s =
     (let old_outputs = outputs (heap s) n in
      case hasHandleOutput (heap s) n of
        Inl e \<Rightarrow> (Inl e, s)
      | Inr has_handle \<Rightarrow>
          let num_old_outputs = length old_outputs - (if has_handle then 1 else 0) in
          if length outs \<noteq> num_old_outputs
          then (Inl (ArityMismatch op_name num_old_outputs (length outs)), s)
          else
            bindE (forE (zip [0 ..< num_old_outputs] (zip old_outputs outs))
                        (setOutputs_entry op_name n)) (\<lambda>_ s.
              if has_handle
              then if uses (heap s (last old_outputs)) \<noteq> []
                   then (Inl (AssertionFailure ''old_outputs.back()->uses().empty()''), s)
                   else set_env (last old_outputs) None s
              else (Inr (), s)) s)"

section \<open>The lowering routines\<close>

text \<open>
  The lowering routines are parameters of the pass. A routine sees what it is handed
  a pointer to: the node heap and the new graph, and, for the routine of an autograd
  function, the new buffer map of the \<^verbatim>\<open>SymbolicContext\<close>. It returns its result or
  the message of the exception it throws, and what it left behind.
  \<open>symbolic orc f\<close> is \<open>None\<close> when the function \<open>f\<close> does not implement
  \<^verbatim>\<open>HasSymbolic\<close>; \<open>hasattr_symbolic orc p\<close> tells whether the Python object \<open>p\<close> has an
  attribute \<^verbatim>\<open>symbolic\<close>.
\<close>

record symbolic_context =
  ctx_heap :: "node_ref \<Rightarrow> node"
  ctx_next_unique :: nat
  ctx_graph :: graph
  ctx_buffer_map :: "(nat \<times> node_ref) list"

datatype py_object = PyNone | PyNode node_ref | PyNodeList "node_ref option list" | PyOther

datatype py_arg = ScalarArg nat | NodeArg node_ref

record oracles =
  symbolic :: "nat \<Rightarrow> (symbolic_context \<Rightarrow> node_ref list
                 \<Rightarrow> (string + node_ref option list) \<times> symbolic_context) option"
  hasattr_symbolic :: "nat \<Rightarrow> bool"
  run_symbolic_method :: "string \<Rightarrow> nat \<Rightarrow> py_arg list \<Rightarrow> symbolic_context
                 \<Rightarrow> (string + py_object) \<times> symbolic_context"
  run_symbolic_function :: "node_ref \<Rightarrow> node_ref list \<Rightarrow> symbolic_context
                 \<Rightarrow> (string + py_object) \<times> symbolic_context"

definition ctx_of :: "pstate \<Rightarrow> symbolic_context" where
  "ctx_of s = \<lparr>ctx_heap = heap s, ctx_next_unique = next_unique s,
              ctx_graph = new_graph s, ctx_buffer_map = new_buffer_map s\<rparr>"

text \<open>
  A call of a lowering routine: the call is logged, the routine runs, and what it did
  to the heap and to the new graph is written back. Python is handed the graph only,
  so the new buffer map is written back for an autograd function alone.
\<close>

definition call_native ::
  "call \<Rightarrow> (symbolic_context \<Rightarrow> (string + 'a) \<times> symbolic_context) \<Rightarrow> 'a stmt" where
  "call_native c f s =
     (case f (ctx_of s) of (r, ctx) \<Rightarrow>
        ((case r of Inl msg \<Rightarrow> Inl (OracleRaised msg) | Inr x \<Rightarrow> Inr x),
         s\<lparr>heap := ctx_heap ctx, next_unique := ctx_next_unique ctx,
           new_graph := ctx_graph ctx, new_buffer_map := ctx_buffer_map ctx,
           calls := calls s @ [c]\<rparr>))"

definition call_python ::
  "call \<Rightarrow> (symbolic_context \<Rightarrow> (string + 'a) \<times> symbolic_context) \<Rightarrow> 'a stmt" where
  "call_python c f s =
     (case f (ctx_of s) of (r, ctx) \<Rightarrow>
        ((case r of Inl msg \<Rightarrow> Inl (OracleRaised msg) | Inr x \<Rightarrow> Inr x),
         s\<lparr>heap := ctx_heap ctx, next_unique := ctx_next_unique ctx,
           new_graph := ctx_graph ctx, calls := calls s @ [c]\<rparr>))"

definition processSymbolicOutput :: "string \<Rightarrow> node_ref \<Rightarrow> py_object \<Rightarrow> unit stmt" where
  "processSymbolicOutput op_name n raw_output =
     (case raw_output of
        PyNone \<Rightarrow> cloneNode n
      | PyNode x \<Rightarrow> setOutputs op_name n [Some x]
      | PyNodeList xs \<Rightarrow> setOutputs op_name n xs
      | PyOther \<Rightarrow> throw (BadSymbolicResult op_name))"

definition callPySymbolicFunction :: "oracles \<Rightarrow> node_ref \<Rightarrow> unit stmt" where
  "callPySymbolicFunction orc n =
     bindE (\<lambda>s. lift (fmap (inputs (heap s n)) (envFn (env s))) s) (\<lambda>py_inputs.
     bindE (call_python (RunSymbolicFunction n) (run_symbolic_function orc n py_inputs)) (\<lambda>raw_output s.
       processSymbolicOutput (symbolToString (kind (heap s n))) n raw_output s))"

text \<open>
  The loop of \<open>callPySymbolicMethod\<close> over the calling convention: \<open>ins\<close> and \<open>scs\<close> are
  what is left of the inputs and of the scalar arguments.
\<close>

fun symbolic_args ::
  "string \<Rightarrow> node_ref list \<Rightarrow> nat list \<Rightarrow> (node_ref \<Rightarrow> error + node_ref) \<Rightarrow> error + py_arg list" where
  "symbolic_args [] ins scs f = Inr []"
| "symbolic_args (arg_type # cs) ins scs f =
     (if arg_type = CHR ''s'' then
        (case scs of
           [] \<Rightarrow> Inl (AssertionFailure ''expected too many scalar args'')
         | x # scs' \<Rightarrow>
             (case symbolic_args cs ins scs' f of
                Inl e \<Rightarrow> Inl e | Inr as \<Rightarrow> Inr (ScalarArg x # as)))
      else if arg_type = CHR ''t'' then
        (case ins of
           [] \<Rightarrow> Inl (AssertionFailure ''expected too many inputs'')
         | i # ins' \<Rightarrow>
             (case f i of
                Inl e \<Rightarrow> Inl e
              | Inr v \<Rightarrow>
                  (case symbolic_args cs ins' scs f of
                     Inl e \<Rightarrow> Inl e | Inr as \<Rightarrow> Inr (NodeArg v # as))))
      else Inl BadCallingConvention)"

definition callPySymbolicMethod :: "oracles \<Rightarrow> node_ref \<Rightarrow> unit stmt" where
  "callPySymbolicMethod orc op s =
     (if \<not> hasattr_symbolic orc (pyobj (heap s op)) then cloneNode op s
      else
        bindE (\<lambda>s. lift (symbolic_args (cconv (heap s op)) (inputs (heap s op))
                           (scalar_args (heap s op)) (envFn (env s))) s) (\<lambda>py_symbolic_args.
        bindE (\<lambda>s. call_python (RunSymbolicMethod op)
                      (run_symbolic_method orc (name (heap s op)) (pyobj (heap s op))
                         py_symbolic_args) s) (\<lambda>raw_output s.
          processSymbolicOutput (name (heap s op)) op raw_output s)) s)"

section \<open>The pass\<close>

text \<open>
  The chain \<^verbatim>\<open>IR_IF ... IR_END\<close> of the loop over the nodes, which runs under the
  stage guard.
\<close>

definition dispatch :: "oracles \<Rightarrow> node_ref \<Rightarrow> unit stmt" where
  "dispatch orc n s =
     (case kind (heap s n) of
        kSelect \<Rightarrow>
          if env s n = None then (Inl (AssertionFailure ''env.count(value) > 0''), s)
          else (Inr (), s)
      | kCppOp \<Rightarrow>
          (case symbolic orc (fn (heap s n)) of
             Some f \<Rightarrow>
               bindE (\<lambda>s. lift (fmap (inputs (heap s n)) (envFn (env s))) s) (\<lambda>ins.
               bindE (call_native (Symbolic n) (\<lambda>ctx. f ctx ins)) (\<lambda>outs s.
                 setOutputs (name (heap s n)) n outs s)) s
           | None \<Rightarrow> cloneNode n s)
      | kPythonOp \<Rightarrow> callPySymbolicMethod orc n s
      | kUndefined \<Rightarrow> cloneNode n s
      | kSym _ \<Rightarrow> callPySymbolicFunction orc n s)"

text \<open>
  \<^verbatim>\<open>setStageTemporary\<close>: the guard gives the new graph the stage of the node and puts
  the previous stage back when the iteration ends, also when it ends by an exception.
\<close>

definition setStage_graph :: "nat \<Rightarrow> pstate \<Rightarrow> pstate" where
  "setStage_graph st s = s\<lparr>new_graph := (new_graph s)\<lparr>graph_stage := st\<rparr>\<rparr>"

definition with_stage :: "nat \<Rightarrow> unit stmt \<Rightarrow> unit stmt" where
  "with_stage st body s =
     (let prev_stage = graph_stage (new_graph s) in
      case body (setStage_graph st s) of (r, s') \<Rightarrow> (r, setStage_graph prev_stage s'))"

text \<open>One iteration of the loop over \<^verbatim>\<open>state->graph->nodes()\<close>.\<close>

definition visit_node :: "oracles \<Rightarrow> node_ref \<Rightarrow> unit stmt" where
  "visit_node orc n s =
     (if hasMultipleOutputs (heap s n) then
        (case hasUsedHandle (heap s) n of
           Inl e \<Rightarrow> (Inl e, s)
         | Inr True \<Rightarrow> cloneNode n s
         | Inr False \<Rightarrow> with_stage (stage (heap s n)) (dispatch orc n) s)
      else with_stage (stage (heap s n)) (dispatch orc n) s)"

definition clone_input :: "node_ref \<Rightarrow> unit stmt" where
  "clone_input input =
     bindE (\<lambda>s. createClone input (envFn (env s)) s) (\<lambda>n.
     bindE (\<lambda>s. modify (\<lambda>s. s\<lparr>heap := (heap s)(n := (heap s n)\<lparr>stage := stage (heap s input)\<rparr>)\<rparr>) s) (\<lambda>_.
     bindE (modify (\<lambda>s. s\<lparr>new_graph := (new_graph s)\<lparr>graph_inputs := graph_inputs (new_graph s) @ [n]\<rparr>\<rparr>)) (\<lambda>_.
     set_env input (Some n))))"

fun map_update :: "'k \<Rightarrow> 'v \<Rightarrow> ('k \<times> 'v) list \<Rightarrow> ('k \<times> 'v) list" where
  "map_update k v [] = [(k, v)]"
| "map_update k v (p # ps) = (if fst p = k then (k, v) # ps else p # map_update k v ps)"

definition translate_buffer :: "nat \<times> node_ref \<Rightarrow> unit stmt" where
  "translate_buffer kv =
     bindE (\<lambda>s. lift (envFn (env s) (snd kv)) s) (\<lambda>v.
     modify (\<lambda>s. s\<lparr>new_buffer_map := map_update (fst kv) v (new_buffer_map s)\<rparr>))"

definition registerOutput :: "node_ref option \<Rightarrow> unit stmt" where
  "registerOutput v = modify (\<lambda>s. s\<lparr>new_graph := (new_graph s)\<lparr>graph_outputs := graph_outputs (new_graph s) @ [v]\<rparr>\<rparr>)"

text \<open>
  \<^verbatim>\<open>registerOutput(env.at(output))\<close>: \<^verbatim>\<open>env.at\<close> throws when the key is missing. No
  null key is ever put into \<open>env\<close>, so a null output of the old graph is a missing key.
\<close>

definition resolve_output :: "node_ref option \<Rightarrow> unit stmt" where
  "resolve_output output s =
     (case output of
        None \<Rightarrow> (Inl MissingOutputMapping, s)
      | Some out \<Rightarrow>
          (case env s out of
             None \<Rightarrow> (Inl MissingOutputMapping, s)
           | Some v \<Rightarrow> registerOutput v s))"

text \<open>
  The locals that the pass declares, and the two loops under the comment "Initialize
  context and environment": the inputs are cloned, then the buffer map is translated.
\<close>

definition declare_locals :: "pstate \<Rightarrow> pstate" where
  "declare_locals s = s\<lparr>new_graph := empty_graph, new_buffer_map := [], env := (\<lambda>_. None)\<rparr>"

definition initialize :: "unit stmt" where
  "initialize =
     bindE (\<lambda>s. forE (graph_inputs (graph (state s))) clone_input s) (\<lambda>_ s.
       forE (buffer_map (state s)) translate_buffer s)"

definition ToONNX :: "oracles \<Rightarrow> unit stmt" where
  "ToONNX orc s =
     (if is_expired (state s) then (Inl StaleTraceState, s)
      else
        bindE (modify declare_locals) (\<lambda>_.
        bindE initialize (\<lambda>_.
        bindE (\<lambda>s. forE (graph_nodes (graph (state s))) (visit_node orc) s) (\<lambda>_.
        bindE (\<lambda>s. forE (graph_outputs (graph (state s))) resolve_output s) (\<lambda>_.
        bindE (\<lambda>s. modify (setStage_graph (graph_stage (graph (state s)))) s) (\<lambda>_.
        modify (\<lambda>s. s\<lparr>state := (state s)\<lparr>graph := new_graph s, buffer_map := new_buffer_map s\<rparr>\<rparr>)))))) s)"

section \<open>What a structural clone is\<close>

text \<open>
  \<open>structure\<close> forgets what a clone does not copy: the wiring, the use list and the
  stage. \<open>cloned s s' ks x\<close> says that in \<open>s'\<close> the environment maps \<open>x\<close> to a node of
  the new graph that has the structure that \<open>x\<close> had in \<open>s\<close> and whose inputs are
  what the environment of \<open>s'\<close> gives for the inputs of \<open>x\<close>; the inputs of \<open>x\<close> listed
  in \<open>ks\<close> are exempt (they are nodes that the same call maps anew).
\<close>

definition "structure" :: "node \<Rightarrow> node" where
  "structure nd = nd\<lparr>inputs := [], uses := [], stage := 0\<rparr>"

definition cloned :: "pstate \<Rightarrow> pstate \<Rightarrow> node_ref list \<Rightarrow> node_ref \<Rightarrow> bool" where
  "cloned s s' ks x =
     (case env s' x of
        Some (Some c) \<Rightarrow>
          c \<in> set (graph_nodes (new_graph s')) \<and> \<not> is_orig c \<and>
          structure (heap s' c) = structure (heap s x) \<and>
          list_all2 (\<lambda>i v. i \<in> set ks \<or> env s' i = Some (Some v))
            (inputs (heap s x)) (inputs (heap s' c))
      | _ \<Rightarrow> False)"

section \<open>The contract of the lowering routines\<close>

text \<open>
  The spec asks of a lowering routine that it does not mutate the original graph, and
  what it returns are nodes of the new graph. \<open>orig_heap\<close> is the part of the heap that
  holds the nodes of the original graph.
\<close>

definition orig_heap :: "pstate \<Rightarrow> node_ref \<Rightarrow> node option" where
  "orig_heap s x = (if is_orig x then Some (heap s x) else None)"

definition new_nodes :: "node_ref option list \<Rightarrow> bool" where
  "new_nodes outs = (\<forall>out\<in>set outs. case out of None \<Rightarrow> True | Some x \<Rightarrow> \<not> is_orig x)"

fun new_result :: "py_object \<Rightarrow> bool" where
  "new_result PyNone = True"
| "new_result (PyNode x) = (\<not> is_orig x)"
| "new_result (PyNodeList xs) = new_nodes xs"
| "new_result PyOther = True"

definition keeps_original :: "symbolic_context \<Rightarrow> symbolic_context \<Rightarrow> bool" where
  "keeps_original ctx ctx' = (\<forall>x. is_orig x \<longrightarrow> ctx_heap ctx' x = ctx_heap ctx x)"

definition well_behaved :: "oracles \<Rightarrow> bool" where
  "well_behaved orc =
     ((\<forall>fid f ctx ins. symbolic orc fid = Some f \<longrightarrow>
         keeps_original ctx (snd (f ctx ins)) \<and>
         (\<forall>outs. fst (f ctx ins) = Inr outs \<longrightarrow> new_nodes outs)) \<and>
      (\<forall>nm p args ctx.
         keeps_original ctx (snd (run_symbolic_method orc nm p args ctx)) \<and>
         (\<forall>r. fst (run_symbolic_method orc nm p args ctx) = Inr r \<longrightarrow> new_result r)) \<and>
      (\<forall>n ins ctx.
         keeps_original ctx (snd (run_symbolic_function orc n ins ctx)) \<and>
         (\<forall>r. fst (run_symbolic_function orc n ins ctx) = Inr r \<longrightarrow> new_result r)))"

section \<open>A small traced graph\<close>

text \<open>
  The input \<open>Orig 0\<close> feeds a multi-output node \<open>Orig 1\<close> with the outputs \<open>Orig 2\<close>,
  \<open>Orig 3\<close> and the handle \<open>Orig 4\<close>, all of them used by \<open>Orig 5\<close>; an undefined
  value \<open>Orig 6\<close>; a single-output operator \<open>Orig 7\<close> used by \<open>Orig 8\<close>; and a node
  \<open>Orig 9\<close> that reads a node outside the graph. \<open>Fresh 0\<close> is the clone of the input.
\<close>

definition ex_node :: node where
  "ex_node = \<lparr>kind = kSym ''Param'', inputs = [], type_opt = None, uses = [], stage = 0,
              source_location = None, attrs = [], name = [], fn = 0, pyobj = 0,
              cconv = [], scalar_args = []\<rparr>"

definition ex_heap :: "node_ref \<Rightarrow> node" where
  "ex_heap = (\<lambda>_. ex_node)
     (Orig 0 := ex_node\<lparr>type_opt := Some (TensorType [2, 3]),
                  uses := [(Orig 1, 0), (Orig 6, 0), (Orig 7, 0)]\<rparr>,
      Orig 1 := ex_node\<lparr>kind := kSym ''RNN'', inputs := [Orig 0], type_opt := Some MultiType,
                  uses := [(Orig 2, 0), (Orig 3, 0), (Orig 4, 0)], stage := 1\<rparr>,
      Orig 2 := ex_node\<lparr>kind := kSelect, inputs := [Orig 1], type_opt := Some (TensorType [2]),
                  uses := [(Orig 5, 0)], attrs := [(''offset'', 0)], stage := 1\<rparr>,
      Orig 3 := ex_node\<lparr>kind := kSelect, inputs := [Orig 1], type_opt := Some (TensorType [3]),
                  uses := [(Orig 5, 1)], attrs := [(''offset'', 1)], stage := 1\<rparr>,
      Orig 4 := ex_node\<lparr>kind := kSelect, inputs := [Orig 1], type_opt := Some HandleType,
                  uses := [(Orig 5, 2)], attrs := [(''offset'', 2)], stage := 1\<rparr>,
      Orig 6 := ex_node\<lparr>kind := kUndefined, inputs := [Orig 0]\<rparr>,
      Orig 7 := ex_node\<lparr>kind := kSym ''Relu'', inputs := [Orig 0],
                  type_opt := Some (TensorType [2, 3]), uses := [(Orig 8, 0)],
                  source_location := Some ''model.py:3''\<rparr>,
      Orig 9 := ex_node\<lparr>kind := kUndefined, inputs := [Orig 20]\<rparr>,
      Fresh 0 := ex_node\<lparr>type_opt := Some (TensorType [2, 3])\<rparr>,
      Fresh 5 := ex_node\<lparr>kind := kSym ''Relu'', type_opt := Some (TensorType [6])\<rparr>)"

definition ex_tracing ::
  "bool \<Rightarrow> node_ref list \<Rightarrow> node_ref option list \<Rightarrow> (nat \<times> node_ref) list \<Rightarrow> tracing_state" where
  "ex_tracing ex ns outs bm =
     \<lparr>is_expired = ex,
      graph = \<lparr>graph_inputs = [Orig 0], graph_nodes = ns, graph_outputs = outs, graph_stage = 0\<rparr>,
      buffer_map = bm\<rparr>"

text \<open>The state of the pass after the input of the small graph has been cloned.\<close>

definition ex_state :: "tracing_state \<Rightarrow> pstate" where
  "ex_state st = \<lparr>heap = ex_heap, next_unique = 10,
                  new_graph = empty_graph\<lparr>graph_inputs := [Fresh 0]\<rparr>, new_buffer_map = [],
                  env = (\<lambda>_. None)(Orig 0 := Some (Some (Fresh 0))), calls = [], state = st\<rparr>"

text \<open>
  Lowering routines for the small graph: no autograd function and no Python object
  has a symbolic, and the symbolic of every operator kind returns the list \<open>[None]\<close>.
\<close>

definition ex_oracles :: oracles where
  "ex_oracles = \<lparr>symbolic = (\<lambda>_. None), hasattr_symbolic = (\<lambda>_. False),
                 run_symbolic_method = (\<lambda>_ _ _ ctx. (Inr PyNone, ctx)),
                 run_symbolic_function = (\<lambda>_ _ ctx. (Inr (PyNodeList [None]), ctx))\<rparr>"

text \<open>
  Traces over the small graph: the undefined value alone, returned as the output,
  with a buffer that is the input; a node that reads outside the graph; an expired
  trace; an unused operator that is the output; and a buffer that is not an input.
\<close>

definition ex_undefined :: pstate where
  "ex_undefined = ex_state (ex_tracing False [Orig 6] [Some (Orig 6)] [(100, Orig 0)])"

definition ex_dangling :: pstate where
  "ex_dangling = ex_state (ex_tracing False [Orig 9] [] [])"

definition ex_expired :: pstate where
  "ex_expired = ex_state (ex_tracing True [Orig 6] [Some (Orig 6)] [])"

definition ex_elided :: pstate where
  "ex_elided = ex_state (ex_tracing False [Orig 8] [Some (Orig 8)] [])"

definition ex_bad_buffer :: pstate where
  "ex_bad_buffer = ex_state (ex_tracing False [Orig 6] [] [(100, Orig 6)])"

text \<open>
  Two more traces: the single-output operator alone, and the multi-output node
  followed by its three outputs. And lowering routines whose symbolic of an operator
  kind returns a list of two nodes.
\<close>

definition ex_relu :: pstate where
  "ex_relu = ex_state (ex_tracing False [Orig 7] [] [])"

definition ex_rnn :: pstate where
  "ex_rnn = ex_state (ex_tracing False [Orig 1, Orig 2, Orig 3, Orig 4] [Some (Orig 2)] [])"

definition ex_oracles_two :: oracles where
  "ex_oracles_two =
     ex_oracles\<lparr>run_symbolic_function :=
       (\<lambda>_ _ ctx. (Inr (PyNodeList [Some (Fresh 5), Some (Fresh 5)]), ctx))\<rparr>"

text \<open>
  Traces for the buffer map: an autograd function \<open>Orig 10\<close> whose symbolic creates one
  node of the new graph and records it in the buffer map of the context, under the
  key 200; an expired trace with a buffer that is not an input; and a graph with the
  two inputs \<open>Orig 0\<close> and \<open>Orig 8\<close>, each of them a buffer.
\<close>

definition ex_batchnorm :: pstate where
  "ex_batchnorm =
     (ex_state (ex_tracing False [Orig 10] [Some (Orig 10)] [(100, Orig 0)]))
       \<lparr>heap := ex_heap(Orig 10 := ex_node\<lparr>kind := kCppOp, inputs := [Orig 0],
                  type_opt := Some (TensorType [2, 3]), name := ''BatchNorm'', fn := 1\<rparr>)\<rparr>"

definition ex_symbolic ::
  "symbolic_context \<Rightarrow> node_ref list \<Rightarrow> (string + node_ref option list) \<times> symbolic_context" where
  "ex_symbolic ctx ins =
     (let r = Fresh (ctx_next_unique ctx) in
      (Inr [Some r],
       ctx\<lparr>ctx_heap := (ctx_heap ctx)(r := ex_node\<lparr>kind := kSym ''BatchNormalization'',
                                                  inputs := ins\<rparr>),
           ctx_next_unique := Suc (ctx_next_unique ctx),
           ctx_graph := (ctx_graph ctx)\<lparr>graph_nodes := graph_nodes (ctx_graph ctx) @ [r]\<rparr>,
           ctx_buffer_map := ctx_buffer_map ctx @ [(200, r)]\<rparr>))"

definition ex_oracles_buffer :: oracles where
  "ex_oracles_buffer = ex_oracles\<lparr>symbolic := (\<lambda>_. Some ex_symbolic)\<rparr>"

definition ex_expired_buffer :: pstate where
  "ex_expired_buffer = ex_state (ex_tracing True [Orig 6] [] [(100, Orig 6)])"

definition ex_two_buffers :: pstate where
  "ex_two_buffers =
     ex_state \<lparr>is_expired = False,
               graph = \<lparr>graph_inputs = [Orig 0, Orig 8], graph_nodes = [Orig 6],
                        graph_outputs = [Some (Orig 6)], graph_stage = 0\<rparr>,
               buffer_map = [(100, Orig 8), (200, Orig 0)]\<rparr>"

section \<open>Sequencing lemmas\<close>

text \<open>
  What a field of the state is after a sequence or a loop, when every step keeps it,
  and where a loop fails.
\<close>

lemma bindE_keeps:
  assumes "\<And>s. g (snd (m s)) = g s" and "\<And>x s. g (snd (f x s)) = g s"
  shows "g (snd (bindE m f s)) = g s"
proof (cases "m s")
  case (Pair r s')
  then have "g s' = g s" using assms(1) [of s] by simp
  with Pair show ?thesis using assms(2) by (cases r) (simp_all add: bindE_def)
qed

lemma forE_keeps:
  assumes "\<And>x s. g (snd (body x s)) = g s"
  shows "g (snd (forE xs body s)) = g s"
proof (induction xs arbitrary: s)
  case Nil
  show ?case by simp
next
  case (Cons x xs)
  obtain r s' where b: "body x s = (r, s')" by (cases "body x s")
  then have "g s' = g s" using assms [of x s] by simp
  with b Cons show ?case by (cases r) simp_all
qed

lemma forE_keeps_mem:
  assumes "\<And>x s. x \<in> set xs \<Longrightarrow> g (snd (body x s)) = g s"
  shows "g (snd (forE xs body s)) = g s"
  using assms
proof (induction xs arbitrary: s)
  case Nil
  show ?case by simp
next
  case (Cons x xs)
  obtain r s' where b: "body x s = (r, s')" by (cases "body x s")
  then have "g s' = g s" using Cons.prems [of x s] by simp
  moreover have "g (snd (forE xs body s')) = g s'"
    by (rule Cons.IH) (simp add: Cons.prems)
  ultimately show ?case using b by (cases r) simp_all
qed

lemma modify_keeps: "(\<And>s. g (f s) = g s) \<Longrightarrow> g (snd (modify f s)) = g s"
  by (simp add: modify_def)

lemma lift_keeps: "g (snd (lift r s)) = g s"
  by (simp add: lift_def)

lemma bindE_fst_Inl: "fst (m s) = Inl e \<Longrightarrow> fst (bindE m f s) = Inl e"
  by (cases "m s") (auto simp: bindE_def)

lemma forE_append:
  "forE (xs @ ys) body s =
     (case forE xs body s of (Inl e, s') \<Rightarrow> (Inl e, s') | (Inr u, s') \<Rightarrow> forE ys body s')"
proof (induction xs arbitrary: s)
  case Nil
  show ?case by simp
next
  case (Cons x xs)
  show ?case
    by (cases "body x s") (auto simp: Cons.IH split: sum.splits)
qed

lemma forE_error:
  assumes "\<And>x s e. fst (body x s) = Inl e \<Longrightarrow> P e"
  shows "fst (forE xs body s) = Inl e \<Longrightarrow> P e"
proof (induction xs arbitrary: s)
  case Nil
  then show ?case by simp
next
  case (Cons x xs)
  obtain r s' where b: "body x s = (r, s')" by (cases "body x s")
  show ?case
  proof (cases r)
    case (Inl e')
    with b Cons.prems have "e' = e" by simp
    with b Inl assms [of x s e] show ?thesis by simp
  next
    case (Inr u)
    with b Cons.prems have "fst (forE xs body s') = Inl e" by simp
    then show ?thesis by (rule Cons.IH)
  qed
qed

lemma forE_error_inv:
  assumes inv: "\<And>x s. x \<in> set xs \<Longrightarrow> I s \<Longrightarrow> I (snd (body x s))"
    and err: "\<And>x s e. x \<in> set xs \<Longrightarrow> I s \<Longrightarrow> fst (body x s) = Inl e \<Longrightarrow> P e"
    and "I s"
  shows "I (snd (forE xs body s)) \<and> (\<forall>e. fst (forE xs body s) = Inl e \<longrightarrow> P e)"
  using assms
proof (induction xs arbitrary: s)
  case Nil
  then show ?case by simp
next
  case (Cons x xs)
  obtain r s' where b: "body x s = (r, s')" by (cases "body x s")
  have s': "I s'" using Cons.prems(1) [of x s] Cons.prems(3) b by simp
  show ?case
  proof (cases r)
    case (Inl e)
    with b s' Cons.prems(2) [of x s e] Cons.prems(3) show ?thesis by simp
  next
    case (Inr u)
    have "I (snd (forE xs body s')) \<and> (\<forall>e. fst (forE xs body s') = Inl e \<longrightarrow> P e)"
    proof (rule Cons.IH)
      show "I (snd (body y t))" if "y \<in> set xs" "I t" for y t
        using Cons.prems(1) [of y t] that by simp
      show "P e" if "y \<in> set xs" "I t" "fst (body y t) = Inl e" for y t e
        using Cons.prems(2) [of y t e] that by simp
      show "I s'" by (rule s')
    qed
    with b Inr show ?thesis by simp
  qed
qed

lemma forE_first_failure:
  assumes inv: "\<And>x s. g (snd (body x s)) = g s"
    and ok: "\<And>j s. j < i \<Longrightarrow> g s = c \<Longrightarrow> fst (body (xs ! j) s) = Inr ()"
    and bad: "\<And>s. g s = c \<Longrightarrow> fst (body (xs ! i) s) = Inl e"
    and i: "i < length xs" and s: "g s = c"
  shows "fst (forE xs body s) = Inl e"
  using ok bad i s
proof (induction xs arbitrary: i s)
  case Nil
  then show ?case by simp
next
  case (Cons x xs)
  obtain r s' where b: "body x s = (r, s')" by (cases "body x s")
  have s': "g s' = c" using inv [of x s] b Cons.prems(4) by simp
  show ?case
  proof (cases i)
    case 0
    with Cons.prems(2) [OF Cons.prems(4)] b show ?thesis by (cases r) auto
  next
    case (Suc k)
    have "fst (body ((x # xs) ! 0) s) = Inr ()"
      using Cons.prems(1) [of 0 s] Suc Cons.prems(4) by simp
    with b have r: "r = Inr ()" by simp
    have "fst (forE xs body s') = Inl e"
    proof (rule Cons.IH [where i = k])
      show "fst (body (xs ! j) s) = Inr ()" if "j < k" "g s = c" for j s
        using Cons.prems(1) [of "Suc j" s] that Suc by simp
      show "fst (body (xs ! k) s) = Inl e" if "g s = c" for s
        using Cons.prems(2) [of s] that Suc by simp
      show "k < length xs" using Cons.prems(3) Suc by simp
      show "g s' = c" by (rule s')
    qed
    with b r show ?thesis by simp
  qed
qed

lemma forE_must_fail:
  assumes inv: "\<And>x s. I s \<Longrightarrow> I (snd (body x s))"
    and err: "\<And>x s e'. I s \<Longrightarrow> fst (body x s) = Inl e' \<Longrightarrow> e' = e"
    and bad: "\<And>s. I s \<Longrightarrow> fst (body b s) = Inl e"
    and "b \<in> set xs" and "I s"
  shows "fst (forE xs body s) = Inl e"
  using assms(4,5)
proof (induction xs arbitrary: s)
  case Nil
  then show ?case by simp
next
  case (Cons x xs)
  obtain r s' where bx: "body x s = (r, s')" by (cases "body x s")
  have s': "I s'" using inv [of s x] Cons.prems(2) bx by simp
  show ?case
  proof (cases r)
    case (Inl e')
    with bx err [of s x e'] Cons.prems(2) show ?thesis by simp
  next
    case (Inr u)
    have "b \<noteq> x"
    proof
      assume "b = x"
      with bad [of s] Cons.prems(2) bx Inr show False by simp
    qed
    with Cons.prems(1) have "b \<in> set xs" by simp
    from Cons.IH [OF this s'] bx Inr show ?thesis by simp
  qed
qed

lemma bindE_result:
  assumes "\<And>s. g (snd (m s)) = g s"
    and "\<And>x s. fst (f x s) = Inr () \<Longrightarrow> h (snd (f x s)) = g s"
    and "fst (bindE m f s) = Inr ()"
  shows "h (snd (bindE m f s)) = g s"
proof (cases "m s")
  case (Pair r s1)
  then have g: "g s1 = g s" using assms(1) [of s] by simp
  show ?thesis
  proof (cases r)
    case (Inl e)
    with Pair assms(3) show ?thesis by (simp add: bindE_def)
  next
    case (Inr x)
    with Pair have "bindE m f s = f x s1" by (simp add: bindE_def)
    with assms(2) [of x s1] assms(3) g show ?thesis by simp
  qed
qed

section \<open>Evaluation on the small graph\<close>

lemmas pass_defs = ToONNX_def declare_locals_def initialize_def bindE_def modify_def lift_def
  throw_def clone_input_def translate_buffer_def createClone_def allocClone_def clone_record_def
  addInput_def set_env_def appendNode_def envFn_def visit_node_def hasMultipleOutputs_def
  hasUsedHandle_def hasHandleOutput_def outputs_def with_stage_def setStage_graph_def
  dispatch_def cloneNode_def clone_user_def resolve_output_def registerOutput_def
  callPySymbolicFunction_def callPySymbolicMethod_def processSymbolicOutput_def
  call_python_def call_native_def ctx_of_def setOutputs_def setOutputs_entry_def setType_def
  setSourceLocation_def Let_def

lemmas ex_defs = ex_node_def ex_heap_def ex_state_def ex_tracing_def ex_oracles_def
  empty_graph_def ex_undefined_def ex_dangling_def ex_expired_def ex_elided_def ex_bad_buffer_def
  ex_relu_def ex_rnn_def ex_oracles_two_def ex_batchnorm_def ex_symbolic_def
  ex_oracles_buffer_def ex_expired_buffer_def ex_two_buffers_def

lemmas ev = pass_defs ex_defs

section \<open>Resolving and cloning\<close>

lemma envFn_Inr: "envFn e i = Inr v \<longleftrightarrow> e i = Some (Some v)"
  by (simp add: envFn_def split: option.splits)

lemma envFn_Inl: "envFn e i = Inl err \<Longrightarrow> err = DanglingReference \<or> err = UsedElidedOutput"
  by (simp add: envFn_def split: option.splits)

lemma fmap_envFn_Inr:
  "fmap is (envFn e) = Inr vs \<longleftrightarrow> list_all2 (\<lambda>i v. e i = Some (Some v)) is vs"
proof (induction "is" arbitrary: vs)
  case Nil
  show ?case by auto
next
  case (Cons i "is")
  show ?case
  proof (cases "envFn e i")
    case (Inl err)
    then have "e i \<noteq> Some (Some v)" for v using envFn_Inr [of e i v] by auto
    with Inl show ?thesis by (cases vs) auto
  next
    case (Inr v)
    then have ei: "e i = Some (Some v)" by (simp add: envFn_Inr)
    show ?thesis
    proof (cases "fmap is (envFn e)")
      case (Inl err)
      then have "\<not> list_all2 (\<lambda>i v. e i = Some (Some v)) is ws" for ws
        using Cons.IH [of ws] by simp
      with Inl Inr show ?thesis by (cases vs) auto
    next
      case (Inr ws)
      then have "list_all2 (\<lambda>i v. e i = Some (Some v)) is us \<longleftrightarrow> us = ws" for us
        using Cons.IH [of us] by auto
      with Inr \<open>envFn e i = Inr v\<close> ei show ?thesis by (cases vs) auto
    qed
  qed
qed

lemma fmap_envFn_Inl:
  "fmap is (envFn e) = Inl err \<Longrightarrow> err = DanglingReference \<or> err = UsedElidedOutput"
  by (induction "is") (auto dest: envFn_Inl split: sum.splits)

lemma addInputs_keeps:
  assumes "\<And>s r v. g (addInput r v s) = g s"
  shows "g (snd (addInputs r is f s)) = g s"
  using assms by (induction "is" arbitrary: s) (auto split: sum.splits)

lemma createClone_keeps:
  assumes "\<And>s h k. g (s\<lparr>heap := h, next_unique := k\<rparr>) = g s"
    and "\<And>s h. g (s\<lparr>heap := h\<rparr>) = g s"
  shows "g (snd (createClone n f s)) = g s"
proof -
  obtain r s1 where a: "allocClone n s = (r, s1)" by (cases "allocClone n s")
  then have g1: "g s1 = g s" using assms(1) by (auto simp: allocClone_def Let_def)
  have "g (snd (addInputs r (inputs (heap s n)) f s1)) = g s1"
    by (rule addInputs_keeps) (simp add: addInput_def assms(2))
  with a g1 show ?thesis
    by (cases "addInputs r (inputs (heap s n)) f s1")
       (auto simp: createClone_def split: sum.splits)
qed

lemma node_upd_commute:
  "nd\<lparr>uses := u, stage := st, inputs := vs\<rparr> = nd\<lparr>inputs := vs, uses := u, stage := st\<rparr>"
  by (cases nd) simp

lemma addInputs_ok:
  "fmap is f = Inr vs \<Longrightarrow>
   addInputs r is f s =
     (Inr (), s\<lparr>heap := (heap s)(r := (heap s r)\<lparr>inputs := inputs (heap s r) @ vs\<rparr>)\<rparr>)"
proof (induction "is" arbitrary: vs s)
  case Nil
  then show ?case by simp
next
  case (Cons i "is")
  from Cons.prems obtain v ws where v: "f i = Inr v" and ws: "fmap is f = Inr ws"
    and vs: "vs = v # ws"
    by (auto split: sum.splits)
  show ?case
    by (cases s) (auto simp: v vs Cons.IH [OF ws] addInput_def fun_eq_iff)
qed

lemma addInputs_fail: "fmap is f = Inl e \<Longrightarrow> fst (addInputs r is f s) = Inl e"
  by (induction "is" arbitrary: s) (auto split: sum.splits)

lemma createClone_ok:
  assumes "fmap (inputs (heap s n)) f = Inr vs"
  shows "createClone n f s =
     (Inr (Fresh (next_unique s)),
      s\<lparr>heap := (heap s)(Fresh (next_unique s) :=
                   clone_record (heap s n) vs (graph_stage (new_graph s))),
        next_unique := Suc (next_unique s)\<rparr>)"
  using assms
  by (cases s) (auto simp: createClone_def allocClone_def Let_def addInputs_ok clone_record_def
      fun_eq_iff node_upd_commute)

lemma createClone_fail:
  assumes "fmap (inputs (heap s n)) f = Inl e"
  shows "fst (createClone n f s) = Inl e"
proof -
  obtain r s1 where a: "allocClone n s = (r, s1)" by (cases "allocClone n s")
  have "fst (addInputs r (inputs (heap s n)) f s1) = Inl e" by (rule addInputs_fail [OF assms])
  with a show ?thesis
    by (cases "addInputs r (inputs (heap s n)) f s1") (auto simp: createClone_def)
qed

lemma createClone_error:
  assumes "fst (createClone n (envFn e) s) = Inl err"
  shows "err = DanglingReference \<or> err = UsedElidedOutput"
proof (cases "fmap (inputs (heap s n)) (envFn e)")
  case (Inl e')
  from createClone_fail [OF this] assms have "e' = err" by simp
  with Inl show ?thesis by (auto dest: fmap_envFn_Inl)
next
  case (Inr vs)
  from createClone_ok [OF this] assms show ?thesis by simp
qed

lemma clone_user_ok:
  assumes "fmap (inputs (heap s (fst u))) (envFn (env s)) = Inr vs"
  shows "clone_user u s =
     (Inr (),
      s\<lparr>heap := (heap s)(Fresh (next_unique s) :=
                   clone_record (heap s (fst u)) vs (graph_stage (new_graph s))),
        next_unique := Suc (next_unique s),
        new_graph := (new_graph s)\<lparr>graph_nodes := graph_nodes (new_graph s) @ [Fresh (next_unique s)]\<rparr>,
        env := (env s)(fst u := Some (Some (Fresh (next_unique s))))\<rparr>)"
  using assms
  by (cases s) (auto simp: clone_user_def bindE_def createClone_ok appendNode_def set_env_def modify_def)

lemma clone_user_fail:
  assumes "fmap (inputs (heap s (fst u))) (envFn (env s)) = Inl e"
  shows "fst (clone_user u s) = Inl e"
  using createClone_fail [OF assms]
  by (auto simp: clone_user_def bindE_def split: prod.splits sum.splits)

lemma clone_user_error:
  assumes "fst (clone_user u s) = Inl err"
  shows "err = DanglingReference \<or> err = UsedElidedOutput"
proof (cases "fmap (inputs (heap s (fst u))) (envFn (env s))")
  case (Inl e')
  from clone_user_fail [OF this] assms have "e' = err" by simp
  with Inl show ?thesis by (auto dest: fmap_envFn_Inl)
next
  case (Inr vs)
  from clone_user_ok [OF this] assms show ?thesis by simp
qed

lemma clone_user_step:
  assumes "clone_user u s = (Inr (), s1)"
  obtains vs where "list_all2 (\<lambda>i v. env s i = Some (Some v)) (inputs (heap s (fst u))) vs"
    and "heap s1 = (heap s)(Fresh (next_unique s) :=
                      clone_record (heap s (fst u)) vs (graph_stage (new_graph s)))"
    and "next_unique s1 = Suc (next_unique s)"
    and "env s1 = (env s)(fst u := Some (Some (Fresh (next_unique s))))"
    and "graph_nodes (new_graph s1) = graph_nodes (new_graph s) @ [Fresh (next_unique s)]"
    and "calls s1 = calls s"
proof (cases "fmap (inputs (heap s (fst u))) (envFn (env s))")
  case (Inl e)
  from clone_user_fail [OF this] assms show ?thesis by simp
next
  case (Inr vs)
  from clone_user_ok [OF this] assms
  have s1: "s1 = s\<lparr>heap := (heap s)(Fresh (next_unique s) :=
                   clone_record (heap s (fst u)) vs (graph_stage (new_graph s))),
        next_unique := Suc (next_unique s),
        new_graph := (new_graph s)\<lparr>graph_nodes := graph_nodes (new_graph s) @ [Fresh (next_unique s)]\<rparr>,
        env := (env s)(fst u := Some (Some (Fresh (next_unique s))))\<rparr>"
    by simp
  show ?thesis
  proof (rule that [of vs])
    show "list_all2 (\<lambda>i v. env s i = Some (Some v)) (inputs (heap s (fst u))) vs"
      using Inr by (simp add: fmap_envFn_Inr)
  qed (simp_all add: s1)
qed

lemma structure_clone_record [simp]: "structure (clone_record nd vs st) = structure nd"
  by (simp add: structure_def clone_record_def)

lemma inputs_clone_record [simp]: "inputs (clone_record nd vs st) = vs"
  by (simp add: clone_record_def)

lemma cloned_cong:
  assumes "cloned s s' ks x" and "heap t x = heap s x" and "set ks \<subseteq> set ks'"
  shows "cloned t s' ks' x"
proof -
  have "list_all2 (\<lambda>i v. i \<in> set ks' \<or> env s' i = Some (Some v)) is vs"
    if "list_all2 (\<lambda>i v. i \<in> set ks \<or> env s' i = Some (Some v)) is vs" for "is" vs
    using that assms(3) by (auto elim!: list_all2_mono)
  with assms(1,2) show ?thesis
    by (auto simp: cloned_def split: option.splits)
qed

lemma clone_users_spec:
  assumes "forE us clone_user s = (Inr (), s')"
    and "\<forall>u\<in>set us. is_orig (fst u)"
  shows "(\<forall>x. is_orig x \<longrightarrow> heap s' x = heap s x) \<and>
         (\<forall>k<next_unique s. heap s' (Fresh k) = heap s (Fresh k)) \<and>
         next_unique s \<le> next_unique s' \<and>
         (\<forall>x. x \<notin> fst ` set us \<longrightarrow> env s' x = env s x) \<and>
         set (graph_nodes (new_graph s)) \<subseteq> set (graph_nodes (new_graph s')) \<and>
         calls s' = calls s \<and>
         (\<forall>u\<in>set us. cloned s s' (map fst us) (fst u))"
  using assms
proof (induction us arbitrary: s)
  case Nil
  then show ?case by simp
next
  case (Cons u us)
  obtain r s1 where b: "clone_user u s = (r, s1)" by (cases "clone_user u s")
  with Cons.prems(1) have r: "r = Inr ()" and rest: "forE us clone_user s1 = (Inr (), s')"
    by (cases r; simp)+
  from b r have b': "clone_user u s = (Inr (), s1)" by simp
  let ?c = "Fresh (next_unique s)"
  from b' obtain vs where vs: "list_all2 (\<lambda>i v. env s i = Some (Some v)) (inputs (heap s (fst u))) vs"
    and h1: "heap s1 = (heap s)(?c := clone_record (heap s (fst u)) vs (graph_stage (new_graph s)))"
    and n1: "next_unique s1 = Suc (next_unique s)"
    and e1: "env s1 = (env s)(fst u := Some (Some ?c))"
    and g1: "graph_nodes (new_graph s1) = graph_nodes (new_graph s) @ [?c]"
    and c1: "calls s1 = calls s"
    by (rule clone_user_step)
  have orig: "\<forall>u\<in>set us. is_orig (fst u)" using Cons.prems(2) by simp
  note IH = Cons.IH [OF rest orig]
  have A: "heap s' x = heap s x" if "is_orig x" for x
  proof -
    have "x \<noteq> ?c" using that by auto
    with IH that show ?thesis by (simp add: h1)
  qed
  have A': "heap s' (Fresh k) = heap s (Fresh k)" if "k < next_unique s" for k
    using IH that by (simp add: h1 n1)
  have B: "next_unique s \<le> next_unique s'" using IH by (simp add: n1)
  have C: "env s' x = env s x" if "x \<notin> fst ` set (u # us)" for x
    using IH that by (simp add: e1)
  have D: "set (graph_nodes (new_graph s)) \<subseteq> set (graph_nodes (new_graph s'))"
    using IH by (auto simp: g1)
  have E: "cloned s s' (map fst (u # us)) (fst w)" if w: "w \<in> set (u # us)" for w
  proof (cases "fst w \<in> fst ` set us")
    case True
    then obtain w' where w': "w' \<in> set us" "fst w' = fst w" by auto
    with IH have "cloned s1 s' (map fst us) (fst w)" by metis
    moreover have "is_orig (fst w)" using Cons.prems(2) w by auto
    then have "heap s (fst w) = heap s1 (fst w)" by (auto simp: h1)
    ultimately show ?thesis by (rule cloned_cong) auto
  next
    case False
    with w have wu: "w = u" by auto
    have env': "env s' (fst u) = Some (Some ?c)" using IH False wu by (simp add: e1)
    have mem: "?c \<in> set (graph_nodes (new_graph s'))" using IH by (auto simp: g1)
    have hc: "heap s' ?c = clone_record (heap s (fst u)) vs (graph_stage (new_graph s))"
      using IH by (simp add: h1 n1)
    have wiring: "list_all2 (\<lambda>i v. i \<in> set (map fst (u # us)) \<or> env s' i = Some (Some v))
                    (inputs (heap s (fst u))) vs"
      using vs
    proof (rule list_all2_mono)
      fix i v assume iv: "env s i = Some (Some v)"
      show "i \<in> set (map fst (u # us)) \<or> env s' i = Some (Some v)"
      proof (cases "i \<in> fst ` set (u # us)")
        case True
        then show ?thesis by simp
      next
        case False
        then have "env s' i = env s i" by (rule C)
        with iv show ?thesis by simp
      qed
    qed
    show ?thesis
      unfolding wu using env' mem hc wiring by (simp add: cloned_def)
  qed
  have F: "calls s' = calls s" using IH c1 by simp
  show ?case
    by (intro conjI allI impI ballI A A' B C D E F)
qed

lemma createClone_calls: "calls (snd (createClone n f s)) = calls s"
  by (rule createClone_keeps) simp_all

lemma clone_user_calls: "calls (snd (clone_user u s)) = calls s"
  unfolding clone_user_def
  by (intro bindE_keeps createClone_calls) (simp_all add: appendNode_def set_env_def modify_def)

lemma cloneNode_calls: "calls (snd (cloneNode n s)) = calls s"
  unfolding cloneNode_def
  by (intro bindE_keeps createClone_calls)
     (auto intro!: forE_keeps clone_user_calls simp: appendNode_def set_env_def modify_def)

lemma cloneNode_as_loop:
  assumes "is_orig n"
  shows "cloneNode n s = forE ((n, 0) # (if hasMultipleOutputs (heap s n) then uses (heap s n) else []))
                             clone_user s"
proof (cases "fmap (inputs (heap s n)) (envFn (env s))")
  case (Inl e)
  obtain r s2 where c: "createClone n (envFn (env s)) s = (r, s2)"
    by (cases "createClone n (envFn (env s)) s")
  with createClone_fail [OF Inl] have "r = Inl e" by simp
  with c show ?thesis by (simp add: cloneNode_def clone_user_def bindE_def)
next
  case (Inr vs)
  let ?c = "Fresh (next_unique s)"
  define sc where "sc = s\<lparr>heap := (heap s)(?c := clone_record (heap s n) vs (graph_stage (new_graph s))),
                            next_unique := Suc (next_unique s)\<rparr>"
  define s1 where "s1 = sc\<lparr>new_graph := (new_graph sc)\<lparr>graph_nodes := graph_nodes (new_graph sc) @ [?c]\<rparr>,
                            env := (env sc)(n := Some (Some ?c))\<rparr>"
  have cc: "createClone n (envFn (env s)) s = (Inr ?c, sc)"
    using createClone_ok [OF Inr] by (simp add: sc_def)
  have s1: "s1 = sc\<lparr>env := (env sc)(n := Some (Some ?c))\<rparr>
                   \<lparr>new_graph := (new_graph sc)\<lparr>graph_nodes := graph_nodes (new_graph sc) @ [?c]\<rparr>\<rparr>"
    unfolding s1_def by (cases sc) simp
  have hn: "heap s1 n = heap s n" using assms by (auto simp: s1_def sc_def)
  have L: "cloneNode n s =
      (if hasMultipleOutputs (heap s1 n) then forE (uses (heap s1 n)) clone_user s1 else (Inr (), s1))"
    by (simp add: cloneNode_def bindE_def cc set_env_def appendNode_def modify_def s1)
  have R: "clone_user (n, 0) s = (Inr (), s1)"
    by (simp add: clone_user_def bindE_def cc set_env_def appendNode_def modify_def s1_def)
  show ?thesis by (simp add: L R hn)
qed

lemma cloneNode_spec:
  assumes run: "cloneNode n s = (Inr (), s')"
    and n: "is_orig n" and us: "\<forall>x\<in>set (outputs (heap s) n). is_orig x"
  shows "cloned s s' (n # outputs (heap s) n) n"
    and "\<forall>x\<in>set (outputs (heap s) n). cloned s s' (outputs (heap s) n) x"
proof -
  let ?us = "if hasMultipleOutputs (heap s n) then uses (heap s n) else []"
  have loop: "forE ((n, 0) # ?us) clone_user s = (Inr (), s')"
    using run cloneNode_as_loop [OF n, of s] by simp
  have orig: "\<forall>u\<in>set ((n, 0) # ?us). is_orig (fst u)"
    using n us by (auto simp: outputs_def)
  note whole = clone_users_spec [OF loop orig]
  have sub: "set (map fst ((n, 0) # ?us)) \<subseteq> set (n # outputs (heap s) n)"
    by (auto simp: outputs_def)
  from whole have "cloned s s' (map fst ((n, 0) # ?us)) n" by simp
  then show c1: "cloned s s' (n # outputs (heap s) n) n"
    by (rule cloned_cong) (use sub in auto)
  show "\<forall>x\<in>set (outputs (heap s) n). cloned s s' (outputs (heap s) n) x"
  proof (cases "hasMultipleOutputs (heap s n)")
    case False
    then have o: "outputs (heap s) n = [n]" by (simp add: outputs_def)
    from False whole have "cloned s s' [n] n" by simp
    then show ?thesis by (simp add: o)
  next
    case True
    obtain r s1 where b: "clone_user (n, 0) s = (r, s1)" by (cases "clone_user (n, 0) s")
    with loop have r: "r = Inr ()" and rest: "forE ?us clone_user s1 = (Inr (), s')"
      by (cases r; simp)+
    from b r obtain vs where
      h1: "heap s1 = (heap s)(Fresh (next_unique s) :=
             clone_record (heap s (fst (n, 0 :: nat))) vs (graph_stage (new_graph s)))"
      by (auto elim: clone_user_step)
    have orig': "\<forall>u\<in>set ?us. is_orig (fst u)" using orig by simp
    note tail = clone_users_spec [OF rest orig']
    have o: "outputs (heap s) n = map fst (uses (heap s n))" using True by (simp add: outputs_def)
    show ?thesis
    proof
      fix x assume x: "x \<in> set (outputs (heap s) n)"
      then obtain u where u: "u \<in> set ?us" "fst u = x" using True o by auto
      with tail have "cloned s1 s' (map fst ?us) x" by metis
      moreover have "is_orig x" using us x by simp
      then have "heap s x = heap s1 x" by (auto simp: h1)
      ultimately show "cloned s s' (outputs (heap s) n) x"
        by (rule cloned_cong) (use True o in auto)
    qed
  qed
qed

lemma cloneNode_spec_snd:
  assumes "fst (cloneNode n s) = Inr ()"
    and "is_orig n" and "\<forall>x\<in>set (outputs (heap s) n). is_orig x"
  shows "cloned s (snd (cloneNode n s)) (n # outputs (heap s) n) n \<and>
         (\<forall>x\<in>set (outputs (heap s) n). cloned s (snd (cloneNode n s)) (outputs (heap s) n) x)"
proof -
  from assms(1) have "cloneNode n s = (Inr (), snd (cloneNode n s))"
    by (cases "cloneNode n s") simp
  from cloneNode_spec [OF this assms(2,3)] show ?thesis by simp
qed

lemma cloneNode_error:
  assumes "fst (cloneNode n s) = Inl err"
  shows "err = DanglingReference \<or> err = UsedElidedOutput"
proof -
  obtain r s1 where c: "createClone n (envFn (env s)) s = (r, s1)"
    by (cases "createClone n (envFn (env s)) s")
  show ?thesis
  proof (cases r)
    case (Inl e')
    with c assms have "e' = err" by (simp add: cloneNode_def bindE_def)
    with c Inl createClone_error [of n "env s" s err] show ?thesis by simp
  next
    case (Inr c0)
    let ?s2 = "snd (appendNode c0 (snd (set_env n (Some c0) s1)))"
    have "cloneNode n s = (if hasMultipleOutputs (heap ?s2 n)
            then forE (uses (heap ?s2 n)) clone_user ?s2 else (Inr (), ?s2))"
      using c Inr by (simp add: cloneNode_def bindE_def set_env_def appendNode_def modify_def)
    with assms have "fst (forE (uses (heap ?s2 n)) clone_user ?s2) = Inl err"
      by (auto split: if_splits)
    then show ?thesis
      by (rule forE_error [where P = "\<lambda>e. e = DanglingReference \<or> e = UsedElidedOutput", rotated])
         (rule clone_user_error)
  qed
qed

section \<open>The tracing state and the buffer map are kept\<close>

text \<open>
  No statement before the last one writes the tracing state, whatever the lowering
  routines do.
\<close>

lemma createClone_state: "state (snd (createClone n f s)) = state s"
  by (rule createClone_keeps) simp_all

lemma appendNode_state: "state (snd (appendNode n s)) = state s"
  by (simp add: appendNode_def modify_def)

lemma set_env_state: "state (snd (set_env k v s)) = state s"
  by (simp add: set_env_def modify_def)

lemma clone_user_state: "state (snd (clone_user u s)) = state s"
  unfolding clone_user_def
  by (intro bindE_keeps createClone_state appendNode_state set_env_state)

lemma cloneNode_state: "state (snd (cloneNode n s)) = state s"
  unfolding cloneNode_def
  by (intro bindE_keeps createClone_state appendNode_state set_env_state)
     (auto intro!: forE_keeps clone_user_state)

lemma setOutputs_entry_state: "state (snd (setOutputs_entry op_name n x s)) = state s"
proof -
  obtain i old out where x: "x = (i, old, out)" by (cases x)
  show ?thesis
    unfolding x setOutputs_entry_def
    by (cases out)
       (auto intro!: bindE_keeps set_env_state simp: setType_def setSourceLocation_def modify_def)
qed

lemma setOutputs_state: "state (snd (setOutputs op_name n outs s)) = state s"
  unfolding setOutputs_def Let_def
  by (auto split: sum.splits intro!: bindE_keeps forE_keeps setOutputs_entry_state set_env_state)

lemma call_native_state: "state (snd (call_native c f s)) = state s"
  by (simp add: call_native_def split: prod.splits)

lemma call_python_state: "state (snd (call_python c f s)) = state s"
  by (simp add: call_python_def split: prod.splits)

lemma processSymbolicOutput_state: "state (snd (processSymbolicOutput op_name n r s)) = state s"
  by (cases r) (simp_all add: processSymbolicOutput_def cloneNode_state setOutputs_state throw_def)

lemma callPySymbolicFunction_state: "state (snd (callPySymbolicFunction orc n s)) = state s"
  unfolding callPySymbolicFunction_def
  by (intro bindE_keeps lift_keeps call_python_state processSymbolicOutput_state)

lemma callPySymbolicMethod_state: "state (snd (callPySymbolicMethod orc n s)) = state s"
  unfolding callPySymbolicMethod_def
  by (auto intro!: bindE_keeps lift_keeps call_python_state processSymbolicOutput_state cloneNode_state)

lemma dispatch_state: "state (snd (dispatch orc n s)) = state s"
  unfolding dispatch_def
  by (auto split: node_kind.splits option.splits
      intro!: bindE_keeps lift_keeps call_native_state setOutputs_state cloneNode_state
        callPySymbolicMethod_state callPySymbolicFunction_state)

lemma with_stage_state:
  assumes "\<And>s. state (snd (body s)) = state s"
  shows "state (snd (with_stage st body s)) = state s"
  using assms [of "setStage_graph st s"]
  by (auto simp: with_stage_def Let_def setStage_graph_def split: prod.splits)

lemma visit_node_state: "state (snd (visit_node orc n s)) = state s"
  unfolding visit_node_def
  by (auto split: sum.splits bool.splits intro!: with_stage_state dispatch_state cloneNode_state)

lemma clone_input_state: "state (snd (clone_input n s)) = state s"
  unfolding clone_input_def
  by (intro bindE_keeps createClone_state set_env_state modify_keeps) simp_all

lemma translate_buffer_state: "state (snd (translate_buffer kv s)) = state s"
  unfolding translate_buffer_def
  by (intro bindE_keeps lift_keeps modify_keeps) simp_all

lemma resolve_output_state: "state (snd (resolve_output out s)) = state s"
  by (simp add: resolve_output_def registerOutput_def modify_def split: option.splits)

lemma initialize_state: "state (snd (initialize s)) = state s"
  unfolding initialize_def
  by (intro bindE_keeps forE_keeps clone_input_state translate_buffer_state)

lemma bindE_commit:
  assumes "\<And>s. state (snd (m s)) = state s"
    and "\<And>x s. case f x s of
            (Inl e, s') \<Rightarrow> state s' = state s
          | (Inr u, s') \<Rightarrow> state s' = (state s)\<lparr>graph := new_graph s', buffer_map := new_buffer_map s'\<rparr>"
  shows "case bindE m f s of
            (Inl e, s') \<Rightarrow> state s' = state s
          | (Inr u, s') \<Rightarrow> state s' = (state s)\<lparr>graph := new_graph s', buffer_map := new_buffer_map s'\<rparr>"
proof (cases "m s")
  case (Pair r s1)
  then have eq: "state s1 = state s" using assms(1) [of s] by simp
  show ?thesis
  proof (cases r)
    case (Inl e)
    with Pair eq show ?thesis by (simp add: bindE_def)
  next
    case (Inr x)
    with Pair have "bindE m f s = f x s1" by (simp add: bindE_def)
    with assms(2) [where x = x and s = s1] eq show ?thesis
      by (auto split: prod.splits sum.splits)
  qed
qed

lemma ToONNX_commit:
  "case ToONNX orc s of
     (Inl e, s') \<Rightarrow> state s' = state s
   | (Inr u, s') \<Rightarrow> state s' = (state s)\<lparr>graph := new_graph s', buffer_map := new_buffer_map s'\<rparr>"
proof (cases "is_expired (state s)")
  case True
  then show ?thesis by (simp add: ToONNX_def)
next
  case False
  have "case bindE (modify declare_locals) (\<lambda>_.
        bindE initialize (\<lambda>_.
        bindE (\<lambda>s. forE (graph_nodes (graph (state s))) (visit_node orc) s) (\<lambda>_.
        bindE (\<lambda>s. forE (graph_outputs (graph (state s))) resolve_output s) (\<lambda>_.
        bindE (\<lambda>s. modify (setStage_graph (graph_stage (graph (state s)))) s) (\<lambda>_.
        modify (\<lambda>s. s\<lparr>state := (state s)\<lparr>graph := new_graph s, buffer_map := new_buffer_map s\<rparr>\<rparr>)))))) s of
     (Inl e, s') \<Rightarrow> state s' = state s
   | (Inr u, s') \<Rightarrow> state s' = (state s)\<lparr>graph := new_graph s', buffer_map := new_buffer_map s'\<rparr>"
    by (intro bindE_commit forE_keeps initialize_state visit_node_state resolve_output_state
        modify_keeps)
       (simp_all add: modify_def setStage_graph_def declare_locals_def)
  with False show ?thesis by (simp add: ToONNX_def)
qed

text \<open>
  The new buffer map is written by the translation only, unless the symbolic of an
  autograd function writes it through the context.
\<close>

lemma createClone_buffers: "new_buffer_map (snd (createClone n f s)) = new_buffer_map s"
  by (rule createClone_keeps) simp_all

lemma clone_user_buffers: "new_buffer_map (snd (clone_user u s)) = new_buffer_map s"
  unfolding clone_user_def
  by (intro bindE_keeps createClone_buffers) (simp_all add: appendNode_def set_env_def modify_def)

lemma cloneNode_buffers: "new_buffer_map (snd (cloneNode n s)) = new_buffer_map s"
  unfolding cloneNode_def
  by (intro bindE_keeps createClone_buffers)
     (auto intro!: forE_keeps clone_user_buffers simp: appendNode_def set_env_def modify_def)

lemma setOutputs_entry_buffers:
  "new_buffer_map (snd (setOutputs_entry op_name n x s)) = new_buffer_map s"
proof -
  obtain i old out where x: "x = (i, old, out)" by (cases x)
  show ?thesis
    unfolding x setOutputs_entry_def
    by (cases out)
       (auto intro!: bindE_keeps simp: setType_def setSourceLocation_def set_env_def modify_def)
qed

lemma setOutputs_buffers: "new_buffer_map (snd (setOutputs op_name n outs s)) = new_buffer_map s"
  unfolding setOutputs_def Let_def
  by (auto split: sum.splits intro!: bindE_keeps forE_keeps setOutputs_entry_buffers
      simp: set_env_def modify_def)

lemma call_python_buffers: "new_buffer_map (snd (call_python c f s)) = new_buffer_map s"
  by (simp add: call_python_def split: prod.splits)

lemma call_native_buffers:
  assumes "\<And>ctx. ctx_buffer_map (snd (f ctx)) = ctx_buffer_map ctx"
  shows "new_buffer_map (snd (call_native c f s)) = new_buffer_map s"
  using assms [of "ctx_of s"]
  by (cases "f (ctx_of s)") (simp add: call_native_def ctx_of_def)

lemma processSymbolicOutput_buffers:
  "new_buffer_map (snd (processSymbolicOutput op_name n r s)) = new_buffer_map s"
  by (cases r) (simp_all add: processSymbolicOutput_def cloneNode_buffers setOutputs_buffers throw_def)

lemma callPySymbolicFunction_buffers:
  "new_buffer_map (snd (callPySymbolicFunction orc n s)) = new_buffer_map s"
  unfolding callPySymbolicFunction_def
  by (intro bindE_keeps lift_keeps call_python_buffers processSymbolicOutput_buffers)

lemma callPySymbolicMethod_buffers:
  "new_buffer_map (snd (callPySymbolicMethod orc n s)) = new_buffer_map s"
  unfolding callPySymbolicMethod_def
  by (auto intro!: bindE_keeps lift_keeps call_python_buffers processSymbolicOutput_buffers
      cloneNode_buffers)

lemma dispatch_buffers:
  assumes "\<And>fid f ctx ins. symbolic orc fid = Some f \<Longrightarrow>
             ctx_buffer_map (snd (f ctx ins)) = ctx_buffer_map ctx"
  shows "new_buffer_map (snd (dispatch orc n s)) = new_buffer_map s"
  unfolding dispatch_def
  by (auto split: node_kind.splits option.splits
      intro!: bindE_keeps lift_keeps call_native_buffers setOutputs_buffers cloneNode_buffers
        callPySymbolicMethod_buffers callPySymbolicFunction_buffers assms)

lemma with_stage_buffers:
  assumes "\<And>s. new_buffer_map (snd (body s)) = new_buffer_map s"
  shows "new_buffer_map (snd (with_stage st body s)) = new_buffer_map s"
  using assms [of "setStage_graph st s"]
  by (auto simp: with_stage_def Let_def setStage_graph_def split: prod.splits)

lemma visit_node_buffers:
  assumes "\<And>fid f ctx ins. symbolic orc fid = Some f \<Longrightarrow>
             ctx_buffer_map (snd (f ctx ins)) = ctx_buffer_map ctx"
  shows "new_buffer_map (snd (visit_node orc n s)) = new_buffer_map s"
  unfolding visit_node_def
  by (auto split: sum.splits bool.splits
      intro!: with_stage_buffers dispatch_buffers cloneNode_buffers assms)

lemma resolve_output_buffers: "new_buffer_map (snd (resolve_output out s)) = new_buffer_map s"
  by (simp add: resolve_output_def registerOutput_def modify_def split: option.splits)

lemma ToONNX_unfold:
  assumes "\<not> is_expired (state s)"
  shows "ToONNX orc s =
     (case initialize (declare_locals s) of
        (Inl e, s1) \<Rightarrow> (Inl e, s1)
      | (Inr u, s1) \<Rightarrow>
          bindE (\<lambda>s. forE (graph_nodes (graph (state s))) (visit_node orc) s) (\<lambda>_.
          bindE (\<lambda>s. forE (graph_outputs (graph (state s))) resolve_output s) (\<lambda>_.
          bindE (\<lambda>s. modify (setStage_graph (graph_stage (graph (state s)))) s) (\<lambda>_.
          modify (\<lambda>s. s\<lparr>state := (state s)\<lparr>graph := new_graph s, buffer_map := new_buffer_map s\<rparr>\<rparr>)))) s1)"
  using assms
  by (simp add: ToONNX_def bindE_def [of "modify declare_locals"] bindE_def [of initialize]
      modify_def [of declare_locals])

section \<open>The original nodes are kept\<close>

text \<open>
  The pass writes the nodes that it allocates and the nodes that the lowering
  routines return, and no other node.
\<close>

lemma orig_heap_upd [simp]:
  "\<not> is_orig r \<Longrightarrow> orig_heap (s\<lparr>heap := (heap s)(r := nd)\<rparr>) = orig_heap s"
  by (auto simp: orig_heap_def fun_eq_iff)

lemma orig_heap_simps [simp]:
  "orig_heap (s\<lparr>next_unique := k\<rparr>) = orig_heap s"
  "orig_heap (s\<lparr>new_graph := g\<rparr>) = orig_heap s"
  "orig_heap (s\<lparr>new_buffer_map := b\<rparr>) = orig_heap s"
  "orig_heap (s\<lparr>env := e\<rparr>) = orig_heap s"
  "orig_heap (s\<lparr>calls := c\<rparr>) = orig_heap s"
  "orig_heap (s\<lparr>state := st\<rparr>) = orig_heap s"
  by (simp_all add: orig_heap_def fun_eq_iff)

lemma orig_heap_setStage_graph [simp]: "orig_heap (setStage_graph st s) = orig_heap s"
  by (simp add: setStage_graph_def)

lemma bindE_keeps_result:
  assumes "\<And>s. g (snd (m s)) = g s"
    and "\<And>x s s'. m s = (Inr x, s') \<Longrightarrow> g (snd (f x s')) = g s'"
  shows "g (snd (bindE m f s)) = g s"
proof (cases "m s")
  case (Pair r s')
  then have "g s' = g s" using assms(1) [of s] by simp
  with Pair show ?thesis using assms(2) [of s _ s'] by (cases r) (simp_all add: bindE_def)
qed

lemma addInputs_orig:
  "\<not> is_orig r \<Longrightarrow> orig_heap (snd (addInputs r is f s)) = orig_heap s"
  by (induction "is" arbitrary: s) (auto simp: addInput_def split: sum.splits)

lemma createClone_orig: "orig_heap (snd (createClone n f s)) = orig_heap s"
proof -
  obtain r s1 where a: "allocClone n s = (r, s1)" by (cases "allocClone n s")
  then have r: "\<not> is_orig r" and s1: "orig_heap s1 = orig_heap s"
    by (auto simp: allocClone_def Let_def)
  from addInputs_orig [OF r, of "inputs (heap s n)" f s1] a s1 show ?thesis
    by (cases "addInputs r (inputs (heap s n)) f s1") (auto simp: createClone_def split: sum.splits)
qed

lemma createClone_fresh:
  "createClone n f s = (Inr c, s') \<Longrightarrow> \<not> is_orig c"
  by (auto simp: createClone_def allocClone_def Let_def split: prod.splits sum.splits)

lemma clone_user_orig: "orig_heap (snd (clone_user u s)) = orig_heap s"
  unfolding clone_user_def
  by (intro bindE_keeps createClone_orig) (simp_all add: appendNode_def set_env_def modify_def)

lemma cloneNode_orig: "orig_heap (snd (cloneNode n s)) = orig_heap s"
  unfolding cloneNode_def
  by (intro bindE_keeps createClone_orig)
     (auto intro!: forE_keeps clone_user_orig simp: appendNode_def set_env_def modify_def)

lemma clone_input_orig: "orig_heap (snd (clone_input i s)) = orig_heap s"
  unfolding clone_input_def
proof (rule bindE_keeps_result)
  show "orig_heap (snd (createClone i (envFn (env s)) s)) = orig_heap s" for s
    by (rule createClone_orig)
  fix c s s' assume "createClone i (envFn (env s)) s = (Inr c, s')"
  then have c: "\<not> is_orig c" by (rule createClone_fresh)
  show "orig_heap (snd (bindE (\<lambda>s. modify (\<lambda>s. s\<lparr>heap := (heap s)(c := (heap s c)\<lparr>stage := stage (heap s i)\<rparr>)\<rparr>) s)
          (\<lambda>_. bindE (modify (\<lambda>s. s\<lparr>new_graph := (new_graph s)\<lparr>graph_inputs := graph_inputs (new_graph s) @ [c]\<rparr>\<rparr>))
          (\<lambda>_. set_env i (Some c))) s')) = orig_heap s'"
    by (intro bindE_keeps) (auto simp: modify_def set_env_def orig_heap_def fun_eq_iff c)
qed

lemma translate_buffer_orig: "orig_heap (snd (translate_buffer kv s)) = orig_heap s"
  unfolding translate_buffer_def
  by (intro bindE_keeps lift_keeps modify_keeps) simp_all

lemma resolve_output_orig: "orig_heap (snd (resolve_output out s)) = orig_heap s"
  by (simp add: resolve_output_def registerOutput_def modify_def split: option.splits)

section \<open>Output reconciliation\<close>

lemma setOutputs_entry_uses:
  "(\<lambda>a. uses (heap (snd (setOutputs_entry op_name n x s)) a)) = (\<lambda>a. uses (heap s a))"
proof -
  obtain i old out where x: "x = (i, old, out)" by (cases x)
  show ?thesis
    unfolding x
    by (cases out)
       (auto simp: setOutputs_entry_def bindE_def setType_def setSourceLocation_def
          set_env_def modify_def fun_eq_iff)
qed

lemma setOutputs_entry_null:
  "setOutputs_entry op_name n (i, old, None) s =
     (if uses (heap s old) \<noteq> [] then Inl (DroppedUsedOutput op_name i) else Inr (),
      s\<lparr>env := (env s)(old := Some None)\<rparr>)"
  by (simp add: setOutputs_entry_def bindE_def set_env_def modify_def)

lemma setOutputs_entry_node_ok:
  "fst (setOutputs_entry op_name n (i, old, Some out) s) = Inr ()"
  by (simp add: setOutputs_entry_def bindE_def setType_def setSourceLocation_def
      set_env_def modify_def)

lemma setOutputs_entry_type:
  "fst (setOutputs_entry op_name n (i, old, Some out) s) = Inr () \<and>
   type_opt (heap (snd (setOutputs_entry op_name n (i, old, Some out) s)) out) =
     (if type_opt (heap s out) = None then type_opt (heap s old) else type_opt (heap s out))"
  by (simp add: setOutputs_entry_def bindE_def setType_def setSourceLocation_def
      set_env_def modify_def)

lemma setOutputs_entry_heap:
  assumes "out \<noteq> Some x"
  shows "heap (snd (setOutputs_entry op_name n (i, old, out) s)) x = heap s x"
  using assms
  by (cases out)
     (auto simp: setOutputs_entry_def bindE_def setType_def setSourceLocation_def
        set_env_def modify_def)

lemma setOutputs_loop_fails:
  assumes "fst (forE (zip [0 ..< length (outputs (heap s) n) - (if has_handle then 1 else 0)]
                       (zip (outputs (heap s) n) outs)) (setOutputs_entry op_name n) s) = Inl e"
    and "hasHandleOutput (heap s) n = Inr has_handle"
    and "length outs = length (outputs (heap s) n) - (if has_handle then 1 else 0)"
  shows "fst (setOutputs op_name n outs s) = Inl e"
proof (cases has_handle)
  case True
  with assms show ?thesis
    by (simp add: setOutputs_def Let_def bindE_fst_Inl)
next
  case False
  with assms show ?thesis
    by (simp add: setOutputs_def Let_def bindE_fst_Inl)
qed

lemma setOutputs_loop_type:
  assumes run: "fst (forE (zip [0 ..< length outs] (zip olds outs)) (setOutputs_entry op_name n) s) = Inr ()"
    and len: "length outs \<le> length olds"
    and i: "i < length outs" and out: "outs ! i = Some out"
    and once: "\<forall>j<length outs. j \<noteq> i \<longrightarrow> outs ! j \<noteq> Some out"
    and old: "\<forall>j<i. outs ! j \<noteq> Some (olds ! i)"
  shows "type_opt (heap (snd (forE (zip [0 ..< length outs] (zip olds outs))
                                 (setOutputs_entry op_name n) s)) out) =
           (if type_opt (heap s out) = None then type_opt (heap s (olds ! i))
            else type_opt (heap s out))"
proof -
  define xs where "xs = zip [0 ..< length outs] (zip olds outs)"
  let ?body = "setOutputs_entry op_name n"
  have lxs: "length xs = length outs" using len by (simp add: xs_def)
  have nth: "xs ! j = (j, olds ! j, outs ! j)" if "j < length outs" for j
    using that len by (simp add: xs_def)
  have run': "fst (forE xs ?body s) = Inr ()" using run by (simp add: xs_def)
  have split: "xs = take i xs @ xs ! i # drop (Suc i) xs"
    using i lxs by (simp add: id_take_nth_drop)
  obtain r1 s1 where p1: "forE (take i xs) ?body s = (r1, s1)"
    by (cases "forE (take i xs) ?body s")
  obtain r2 s2 where p2: "?body (xs ! i) s1 = (r2, s2)" by (cases "?body (xs ! i) s1")
  have "forE xs ?body s = forE (take i xs @ xs ! i # drop (Suc i) xs) ?body s"
    using split by simp
  then have whole: "forE xs ?body s =
      (case r1 of Inl e \<Rightarrow> (Inl e, s1)
       | Inr u \<Rightarrow> (case r2 of Inl e \<Rightarrow> (Inl e, s2) | Inr u \<Rightarrow> forE (drop (Suc i) xs) ?body s2))"
    by (simp add: forE_append p1 p2 split: sum.splits)
  from run' whole have r1: "r1 = Inr ()" by (cases r1) auto
  with run' whole have r2: "r2 = Inr ()" by (cases r2) auto
  from whole r1 r2 have fin: "forE xs ?body s = forE (drop (Suc i) xs) ?body s2" by simp
  have pre: "heap s1 x = heap s x" if "\<forall>j<i. outs ! j \<noteq> Some x" for x
  proof -
    have "(\<lambda>t. heap t x) (snd (forE (take i xs) ?body s)) = (\<lambda>t. heap t x) s"
    proof (rule forE_keeps_mem)
      fix e t assume "e \<in> set (take i xs)"
      then obtain j where j: "j < i" "e = xs ! j"
        using i lxs by (auto simp: in_set_conv_nth)
      then have e: "e = (j, olds ! j, outs ! j)" using nth [of j] i by simp
      show "heap (snd (?body e t)) x = heap t x"
        unfolding e by (rule setOutputs_entry_heap) (use that j in simp)
    qed
    with p1 show ?thesis by simp
  qed
  have post: "heap (snd (forE (drop (Suc i) xs) ?body s2)) out = heap s2 out"
  proof -
    have "(\<lambda>t. heap t out) (snd (forE (drop (Suc i) xs) ?body s2)) = (\<lambda>t. heap t out) s2"
    proof (rule forE_keeps_mem)
      fix e t assume "e \<in> set (drop (Suc i) xs)"
      then obtain k where k: "k < length xs - Suc i" "e = drop (Suc i) xs ! k"
        by (auto simp: in_set_conv_nth)
      define j where "j = Suc i + k"
      have j: "Suc i \<le> j" "j < length outs" "e = xs ! j"
        using k lxs by (simp_all add: j_def)
      then have e: "e = (j, olds ! j, outs ! j)" using nth [of j] by simp
      show "heap (snd (?body e t)) out = heap t out"
        unfolding e by (rule setOutputs_entry_heap) (use once j in auto)
    qed
    then show ?thesis by simp
  qed
  have h_out: "heap s1 out = heap s out" by (rule pre) (use once i in auto)
  have h_old: "heap s1 (olds ! i) = heap s (olds ! i)" by (rule pre) (rule old)
  have "type_opt (heap s2 out) =
          (if type_opt (heap s1 out) = None then type_opt (heap s1 (olds ! i))
           else type_opt (heap s1 out))"
    using setOutputs_entry_type [of op_name n i "olds ! i" out s1] p2 nth [OF i] out by simp
  with fin post h_out h_old show ?thesis by (simp add: xs_def)
qed

lemma setOutputs_success:
  assumes "fst (setOutputs op_name n outs s) = Inr ()"
  obtains has_handle where "hasHandleOutput (heap s) n = Inr has_handle"
    and "length outs = length (outputs (heap s) n) - (if has_handle then 1 else 0)"
    and "fst (forE (zip [0 ..< length outs] (zip (outputs (heap s) n) outs))
               (setOutputs_entry op_name n) s) = Inr ()"
    and "heap (snd (setOutputs op_name n outs s)) =
         heap (snd (forE (zip [0 ..< length outs] (zip (outputs (heap s) n) outs))
                      (setOutputs_entry op_name n) s))"
proof (cases "hasHandleOutput (heap s) n")
  case (Inl e)
  with assms show ?thesis by (simp add: setOutputs_def Let_def)
next
  case (Inr hh)
  let ?k = "length (outputs (heap s) n) - (if hh then 1 else 0)"
  have len: "length outs = ?k"
    using assms Inr by (auto simp: setOutputs_def Let_def split: if_splits)
  let ?loop = "forE (zip [0 ..< length outs] (zip (outputs (heap s) n) outs))
                 (setOutputs_entry op_name n)"
  obtain r s1 where l: "?loop s = (r, s1)" by (cases "?loop s")
  have unf: "setOutputs op_name n outs s =
      (case r of Inl e \<Rightarrow> (Inl e, s1)
       | Inr u \<Rightarrow> if hh then if uses (heap s1 (last (outputs (heap s) n))) \<noteq> []
                   then (Inl (AssertionFailure ''old_outputs.back()->uses().empty()''), s1)
                   else set_env (last (outputs (heap s) n)) None s1
              else (Inr (), s1))"
    using Inr len l by (cases hh) (auto simp: setOutputs_def Let_def bindE_def split: sum.splits)
  from assms unf have r: "r = Inr ()" by (cases r) auto
  have "heap (snd (setOutputs op_name n outs s)) = heap s1"
    using unf r by (auto simp: set_env_def modify_def)
  with Inr len l r show ?thesis by (intro that [of hh]) simp_all
qed

lemma setOutputs_type:
  assumes ok: "fst (setOutputs op_name n outs s) = Inr ()"
    and i: "i < length outs" and out: "outs ! i = Some out"
    and once: "\<forall>j<length outs. j \<noteq> i \<longrightarrow> outs ! j \<noteq> Some out"
    and old: "\<forall>j<i. outs ! j \<noteq> Some (outputs (heap s) n ! i)"
  shows "type_opt (heap (snd (setOutputs op_name n outs s)) out) =
           (if type_opt (heap s out) = None then type_opt (heap s (outputs (heap s) n ! i))
            else type_opt (heap s out))"
proof -
  from ok obtain hh where len: "length outs = length (outputs (heap s) n) - (if hh then 1 else 0)"
    and run: "fst (forE (zip [0 ..< length outs] (zip (outputs (heap s) n) outs))
               (setOutputs_entry op_name n) s) = Inr ()"
    and h: "heap (snd (setOutputs op_name n outs s)) =
         heap (snd (forE (zip [0 ..< length outs] (zip (outputs (heap s) n) outs))
                      (setOutputs_entry op_name n) s))"
    by (rule setOutputs_success)
  have le: "length outs \<le> length (outputs (heap s) n)" using len by simp
  show ?thesis
    unfolding h by (rule setOutputs_loop_type [OF run le i out once old])
qed

lemma setOutputs_entry_orig:
  assumes "case out of None \<Rightarrow> True | Some x \<Rightarrow> \<not> is_orig x"
  shows "orig_heap (snd (setOutputs_entry op_name n (i, old, out) s)) = orig_heap s"
  using assms
  by (cases out)
     (auto simp: setOutputs_entry_def bindE_def setType_def setSourceLocation_def
        set_env_def modify_def)

lemma setOutputs_orig:
  assumes "new_nodes outs"
  shows "orig_heap (snd (setOutputs op_name n outs s)) = orig_heap s"
proof -
  have loop: "orig_heap (snd (forE (zip ks (zip olds outs)) (setOutputs_entry op_name n) t)) = orig_heap t"
    for ks olds t
  proof (rule forE_keeps_mem)
    fix x t assume "x \<in> set (zip ks (zip olds outs))"
    moreover obtain i old out where x: "x = (i, old, out)" by (cases x)
    ultimately have "(old, out) \<in> set (zip olds outs)" by (auto dest: set_zip_rightD)
    then have "out \<in> set outs" by (rule set_zip_rightD)
    with assms have "case out of None \<Rightarrow> True | Some x \<Rightarrow> \<not> is_orig x"
      by (auto simp: new_nodes_def)
    then show "orig_heap (snd (setOutputs_entry op_name n x t)) = orig_heap t"
      unfolding x by (rule setOutputs_entry_orig)
  qed
  show ?thesis
    unfolding setOutputs_def Let_def
    by (auto split: sum.splits intro!: bindE_keeps loop simp: set_env_def modify_def)
qed

lemma call_native_orig:
  assumes "keeps_original (ctx_of s) (snd (f (ctx_of s)))"
  shows "orig_heap (snd (call_native c f s)) = orig_heap s"
  using assms
  by (cases "f (ctx_of s)")
     (auto simp: call_native_def keeps_original_def ctx_of_def orig_heap_def fun_eq_iff)

lemma call_python_orig:
  assumes "keeps_original (ctx_of s) (snd (f (ctx_of s)))"
  shows "orig_heap (snd (call_python c f s)) = orig_heap s"
  using assms
  by (cases "f (ctx_of s)")
     (auto simp: call_python_def keeps_original_def ctx_of_def orig_heap_def fun_eq_iff)

lemma call_native_result:
  "call_native c f s = (Inr x, s') \<Longrightarrow> fst (f (ctx_of s)) = Inr x"
  by (cases "f (ctx_of s)") (auto simp: call_native_def split: sum.splits)

lemma call_python_result:
  "call_python c f s = (Inr x, s') \<Longrightarrow> fst (f (ctx_of s)) = Inr x"
  by (cases "f (ctx_of s)") (auto simp: call_python_def split: sum.splits)

lemma processSymbolicOutput_orig:
  assumes "new_result r"
  shows "orig_heap (snd (processSymbolicOutput op_name n r s)) = orig_heap s"
  using assms
  by (cases r)
     (simp_all add: processSymbolicOutput_def cloneNode_orig setOutputs_orig throw_def new_nodes_def)

lemma callPySymbolicFunction_orig:
  assumes "well_behaved orc"
  shows "orig_heap (snd (callPySymbolicFunction orc n s)) = orig_heap s"
  unfolding callPySymbolicFunction_def
proof (rule bindE_keeps)
  show "orig_heap (snd (lift (fmap (inputs (heap s n)) (envFn (env s))) s)) = orig_heap s" for s
    by (rule lift_keeps)
  show "orig_heap (snd (bindE (call_python (RunSymbolicFunction n) (run_symbolic_function orc n ins))
          (\<lambda>raw_output s. processSymbolicOutput (symbolToString (kind (heap s n))) n raw_output s) s)) =
        orig_heap s" for ins s
  proof (rule bindE_keeps_result)
    show "orig_heap (snd (call_python (RunSymbolicFunction n) (run_symbolic_function orc n ins) s)) =
          orig_heap s" for s
      by (rule call_python_orig) (use assms in \<open>simp add: well_behaved_def\<close>)
    fix r s s'
    assume "call_python (RunSymbolicFunction n) (run_symbolic_function orc n ins) s = (Inr r, s')"
    then have "fst (run_symbolic_function orc n ins (ctx_of s)) = Inr r" by (rule call_python_result)
    with assms have "new_result r" by (simp add: well_behaved_def)
    then show "orig_heap (snd (processSymbolicOutput (symbolToString (kind (heap s' n))) n r s')) =
               orig_heap s'"
      by (rule processSymbolicOutput_orig)
  qed
qed

lemma callPySymbolicMethod_orig:
  assumes "well_behaved orc"
  shows "orig_heap (snd (callPySymbolicMethod orc n s)) = orig_heap s"
proof (cases "hasattr_symbolic orc (pyobj (heap s n))")
  case False
  then show ?thesis by (simp add: callPySymbolicMethod_def cloneNode_orig)
next
  case True
  have "orig_heap (snd (bindE (\<lambda>s. lift (symbolic_args (cconv (heap s n)) (inputs (heap s n))
                           (scalar_args (heap s n)) (envFn (env s))) s) (\<lambda>py_symbolic_args.
        bindE (\<lambda>s. call_python (RunSymbolicMethod n)
                      (run_symbolic_method orc (name (heap s n)) (pyobj (heap s n))
                         py_symbolic_args) s) (\<lambda>raw_output s.
          processSymbolicOutput (name (heap s n)) n raw_output s)) s)) = orig_heap s"
  proof (rule bindE_keeps)
    show "orig_heap (snd (lift (symbolic_args (cconv (heap s n)) (inputs (heap s n))
                           (scalar_args (heap s n)) (envFn (env s))) s)) = orig_heap s" for s
      by (rule lift_keeps)
    show "orig_heap (snd (bindE (\<lambda>s. call_python (RunSymbolicMethod n)
                      (run_symbolic_method orc (name (heap s n)) (pyobj (heap s n)) args) s)
            (\<lambda>raw_output s. processSymbolicOutput (name (heap s n)) n raw_output s) s)) = orig_heap s"
      for args s
    proof (rule bindE_keeps_result)
      show "orig_heap (snd (call_python (RunSymbolicMethod n)
              (run_symbolic_method orc (name (heap s n)) (pyobj (heap s n)) args) s)) = orig_heap s"
        for s
        by (rule call_python_orig) (use assms in \<open>simp add: well_behaved_def\<close>)
      fix r s s'
      assume "call_python (RunSymbolicMethod n)
                (run_symbolic_method orc (name (heap s n)) (pyobj (heap s n)) args) s = (Inr r, s')"
      then have "fst (run_symbolic_method orc (name (heap s n)) (pyobj (heap s n)) args (ctx_of s)) = Inr r"
        by (rule call_python_result)
      with assms have "new_result r" by (simp add: well_behaved_def)
      then show "orig_heap (snd (processSymbolicOutput (name (heap s' n)) n r s')) = orig_heap s'"
        by (rule processSymbolicOutput_orig)
    qed
  qed
  with True show ?thesis by (simp add: callPySymbolicMethod_def)
qed

lemma dispatch_orig:
  assumes "well_behaved orc"
  shows "orig_heap (snd (dispatch orc n s)) = orig_heap s"
proof (cases "kind (heap s n)")
  case kSelect
  then show ?thesis by (simp add: dispatch_def)
next
  case kCppOp
  show ?thesis
  proof (cases "symbolic orc (fn (heap s n))")
    case None
    with kCppOp show ?thesis by (simp add: dispatch_def cloneNode_orig)
  next
    case (Some f)
    have "orig_heap (snd (bindE (\<lambda>s. lift (fmap (inputs (heap s n)) (envFn (env s))) s) (\<lambda>ins.
               bindE (call_native (Symbolic n) (\<lambda>ctx. f ctx ins)) (\<lambda>outs s.
                 setOutputs (name (heap s n)) n outs s)) s)) = orig_heap s"
    proof (rule bindE_keeps)
      show "orig_heap (snd (lift (fmap (inputs (heap s n)) (envFn (env s))) s)) = orig_heap s" for s
        by (rule lift_keeps)
      show "orig_heap (snd (bindE (call_native (Symbolic n) (\<lambda>ctx. f ctx ins))
              (\<lambda>outs s. setOutputs (name (heap s n)) n outs s) s)) = orig_heap s" for ins s
      proof (rule bindE_keeps_result)
        show "orig_heap (snd (call_native (Symbolic n) (\<lambda>ctx. f ctx ins) s)) = orig_heap s" for s
          by (rule call_native_orig) (use assms Some in \<open>simp add: well_behaved_def\<close>)
        fix outs s s'
        assume "call_native (Symbolic n) (\<lambda>ctx. f ctx ins) s = (Inr outs, s')"
        then have "fst (f (ctx_of s) ins) = Inr outs" by (rule call_native_result)
        with assms Some have "new_nodes outs" unfolding well_behaved_def by blast
        then show "orig_heap (snd (setOutputs (name (heap s' n)) n outs s')) = orig_heap s'"
          by (rule setOutputs_orig)
      qed
    qed
    with kCppOp Some show ?thesis by (simp add: dispatch_def)
  qed
next
  case kPythonOp
  then show ?thesis by (simp add: dispatch_def callPySymbolicMethod_orig [OF assms])
next
  case kUndefined
  then show ?thesis by (simp add: dispatch_def cloneNode_orig)
next
  case (kSym x)
  then show ?thesis by (simp add: dispatch_def callPySymbolicFunction_orig [OF assms])
qed

section \<open>The stage guard\<close>

lemma heap_setStage_graph [simp]: "heap (setStage_graph st s) = heap s"
  and env_setStage_graph [simp]: "env (setStage_graph st s) = env s"
  and calls_setStage_graph [simp]: "calls (setStage_graph st s) = calls s"
  and nodes_setStage_graph [simp]:
    "graph_nodes (new_graph (setStage_graph st s)) = graph_nodes (new_graph s)"
  by (simp_all add: setStage_graph_def)

lemma cloned_setStage_graph [simp]:
  "cloned (setStage_graph a s) s' ks x = cloned s s' ks x"
  "cloned s (setStage_graph b s') ks x = cloned s s' ks x"
  by (simp_all add: cloned_def cong: option.case_cong)

lemma with_stage_result:
  "with_stage st body s =
     (fst (body (setStage_graph st s)),
      setStage_graph (graph_stage (new_graph s)) (snd (body (setStage_graph st s))))"
  by (simp add: with_stage_def Let_def split: prod.splits)

lemma dispatch_undefined:
  "kind (heap s n) = kUndefined \<Longrightarrow> dispatch orc n s = cloneNode n s"
  by (simp add: dispatch_def)

section \<open>Initialization\<close>

lemma clone_input_cases:
  obtains (fail) e where "fst (clone_input i s) = Inl e"
      "e = DanglingReference \<or> e = UsedElidedOutput"
      "fmap (inputs (heap s i)) (envFn (env s)) = Inl e"
      "env (snd (clone_input i s)) = env s"
      "new_graph (snd (clone_input i s)) = new_graph s"
  | (ok) "fst (clone_input i s) = Inr ()"
      "env (snd (clone_input i s)) = (env s)(i := Some (Some (Fresh (next_unique s))))"
      "graph_inputs (new_graph (snd (clone_input i s))) =
         graph_inputs (new_graph s) @ [Fresh (next_unique s)]"
proof (cases "fmap (inputs (heap s i)) (envFn (env s))")
  case (Inl e)
  obtain r s1 where c: "createClone i (envFn (env s)) s = (r, s1)"
    by (cases "createClone i (envFn (env s)) s")
  with createClone_fail [OF Inl] have r: "r = Inl e" by simp
  have "env s1 = env s" "new_graph s1 = new_graph s"
    using createClone_keeps [where g = env and n = i and f = "envFn (env s)" and s = s]
      createClone_keeps [where g = new_graph and n = i and f = "envFn (env s)" and s = s] c
    by simp_all
  with c r Inl show ?thesis
    by (intro fail [of e]) (auto simp: clone_input_def bindE_def dest: fmap_envFn_Inl)
next
  case (Inr vs)
  show ?thesis
    by (rule ok) (simp_all add: clone_input_def bindE_def createClone_ok [OF Inr] modify_def set_env_def)
qed

lemma clone_input_calls: "calls (snd (clone_input i s)) = calls s"
  unfolding clone_input_def
  by (intro bindE_keeps createClone_calls modify_keeps) (simp_all add: set_env_def modify_def)

lemma clone_input_buffers: "new_buffer_map (snd (clone_input i s)) = new_buffer_map s"
  unfolding clone_input_def
  by (intro bindE_keeps createClone_keeps modify_keeps) (simp_all add: set_env_def modify_def)

lemma translate_buffer_calls: "calls (snd (translate_buffer kv s)) = calls s"
  unfolding translate_buffer_def
  by (intro bindE_keeps lift_keeps modify_keeps) simp_all

lemma translate_buffer_env: "env (snd (translate_buffer kv s)) = env s"
  unfolding translate_buffer_def
  by (intro bindE_keeps lift_keeps modify_keeps) simp_all

lemma translate_buffer_graph: "new_graph (snd (translate_buffer kv s)) = new_graph s"
  unfolding translate_buffer_def
  by (intro bindE_keeps lift_keeps modify_keeps) simp_all

lemma translate_buffer_fst:
  "fst (translate_buffer kv s) = (case envFn (env s) (snd kv) of Inl e \<Rightarrow> Inl e | Inr v \<Rightarrow> Inr ())"
  by (simp add: translate_buffer_def bindE_def lift_def modify_def split: sum.splits)

lemma set_map_update: "set (map_update k v m) \<subseteq> insert (k, v) (set m)"
  by (induction m) auto

lemma translate_buffer_values:
  assumes "\<forall>x v. env s x = Some (Some v) \<longrightarrow> v \<in> A"
    and "\<forall>kv\<in>set (new_buffer_map s). snd kv \<in> A"
  shows "\<forall>kv\<in>set (new_buffer_map (snd (translate_buffer kv0 s))). snd kv \<in> A"
proof (cases "envFn (env s) (snd kv0)")
  case (Inl e)
  with assms(2) show ?thesis by (simp add: translate_buffer_def bindE_def lift_def)
next
  case (Inr v)
  then have "v \<in> A" using assms(1) by (simp add: envFn_Inr)
  with assms(2) set_map_update [of "fst kv0" v "new_buffer_map s"] Inr show ?thesis
    by (auto simp: translate_buffer_def bindE_def lift_def modify_def)
qed

lemma initialize_calls: "calls (snd (initialize s)) = calls s"
  unfolding initialize_def
  by (intro bindE_keeps forE_keeps clone_input_calls translate_buffer_calls)

lemma clone_inputs_inv:
  assumes "\<forall>x. env t x \<noteq> Some None"
    and "\<forall>x. env t x \<noteq> None \<longrightarrow> x \<in> set ins"
    and "\<forall>x v. env t x = Some (Some v) \<longrightarrow> v \<in> set (graph_inputs (new_graph t))"
  shows "((\<forall>x. env (snd (forE ins clone_input t)) x \<noteq> Some None) \<and>
          (\<forall>x. env (snd (forE ins clone_input t)) x \<noteq> None \<longrightarrow> x \<in> set ins) \<and>
          (\<forall>x v. env (snd (forE ins clone_input t)) x = Some (Some v) \<longrightarrow>
                 v \<in> set (graph_inputs (new_graph (snd (forE ins clone_input t)))))) \<and>
         (\<forall>e. fst (forE ins clone_input t) = Inl e \<longrightarrow> e = DanglingReference)"
proof (rule forE_error_inv
    [where I = "\<lambda>u :: pstate. (\<forall>x. env u x \<noteq> Some None) \<and> (\<forall>x. env u x \<noteq> None \<longrightarrow> x \<in> set ins) \<and>
                  (\<forall>x v. env u x = Some (Some v) \<longrightarrow> v \<in> set (graph_inputs (new_graph u)))"
       and P = "\<lambda>e. e = DanglingReference"])
  fix i and u :: pstate
  assume i: "i \<in> set ins"
    and I: "(\<forall>x. env u x \<noteq> Some None) \<and> (\<forall>x. env u x \<noteq> None \<longrightarrow> x \<in> set ins) \<and>
            (\<forall>x v. env u x = Some (Some v) \<longrightarrow> v \<in> set (graph_inputs (new_graph u)))"
  show "(\<forall>x. env (snd (clone_input i u)) x \<noteq> Some None) \<and>
        (\<forall>x. env (snd (clone_input i u)) x \<noteq> None \<longrightarrow> x \<in> set ins) \<and>
        (\<forall>x v. env (snd (clone_input i u)) x = Some (Some v) \<longrightarrow>
               v \<in> set (graph_inputs (new_graph (snd (clone_input i u)))))"
  proof (cases i u rule: clone_input_cases)
    case (fail e)
    with I show ?thesis by simp
  next
    case ok
    with I i show ?thesis by auto
  qed
next
  fix i and u :: pstate and e
  assume I: "(\<forall>x. env u x \<noteq> Some None) \<and> (\<forall>x. env u x \<noteq> None \<longrightarrow> x \<in> set ins) \<and>
            (\<forall>x v. env u x = Some (Some v) \<longrightarrow> v \<in> set (graph_inputs (new_graph u)))"
    and f: "fst (clone_input i u) = Inl e"
  have no_elided: "e' \<noteq> UsedElidedOutput" if "fmap js (envFn (env u)) = Inl e'" for js e'
    using that I by (induction js) (auto simp: envFn_def split: option.splits sum.splits)
  show "e = DanglingReference"
  proof (cases i u rule: clone_input_cases)
    case (fail e')
    with f have "e' = e" by simp
    with fail no_elided show ?thesis by auto
  next
    case ok
    with f show ?thesis by simp
  qed
next
  show "(\<forall>x. env t x \<noteq> Some None) \<and> (\<forall>x. env t x \<noteq> None \<longrightarrow> x \<in> set ins) \<and>
        (\<forall>x v. env t x = Some (Some v) \<longrightarrow> v \<in> set (graph_inputs (new_graph t)))"
    using assms by simp
qed

lemma translate_buffers_fail:
  assumes "\<forall>x. env u x \<noteq> Some None" and "b \<in> set bm" and "env u (snd b) = None"
  shows "fst (forE bm translate_buffer u) = Inl DanglingReference"
proof (rule forE_must_fail [where I = "\<lambda>v. env v = env u" and b = b])
  show "env (snd (translate_buffer kv v)) = env u" if "env v = env u" for kv v
    using that by (simp add: translate_buffer_env)
  show "e' = DanglingReference" if "env v = env u" "fst (translate_buffer kv v) = Inl e'" for kv v e'
    using that assms(1) by (auto simp: translate_buffer_fst envFn_def split: option.splits)
  show "fst (translate_buffer b v) = Inl DanglingReference" if "env v = env u" for v
    using that assms(3) by (simp add: translate_buffer_fst envFn_def)
  show "b \<in> set bm" by fact
  show "env u = env u" ..
qed

lemma translate_buffers_values:
  assumes "\<forall>x v. env u x = Some (Some v) \<longrightarrow> v \<in> set (graph_inputs (new_graph u))"
    and "\<forall>kv\<in>set (new_buffer_map u). snd kv \<in> set (graph_inputs (new_graph u))"
  shows "\<forall>kv\<in>set (new_buffer_map (snd (forE bm translate_buffer u))).
           snd kv \<in> set (graph_inputs (new_graph (snd (forE bm translate_buffer u))))"
proof -
  let ?I = "\<lambda>v. env v = env u \<and> new_graph v = new_graph u \<and>
                (\<forall>kv\<in>set (new_buffer_map v). snd kv \<in> set (graph_inputs (new_graph u)))"
  have "?I (snd (forE bm translate_buffer u)) \<and>
        (\<forall>e. fst (forE bm translate_buffer u) = Inl e \<longrightarrow> True)"
  proof (rule forE_error_inv [where I = ?I and P = "\<lambda>_. True"])
    show "?I (snd (translate_buffer kv v))" if "?I v" for kv v
      using that assms(1) translate_buffer_values [of v "set (graph_inputs (new_graph u))" kv]
      by (simp add: translate_buffer_env translate_buffer_graph)
    show "?I u" using assms(2) by simp
  qed simp
  then show ?thesis by simp
qed

lemma initialize_spec:
  assumes "env t = (\<lambda>_. None)" and "new_buffer_map t = []"
  shows "(\<forall>kv\<in>set (buffer_map (state t)). snd kv \<notin> set (graph_inputs (graph (state t))) \<longrightarrow>
            fst (initialize t) = Inl DanglingReference) \<and>
         (\<forall>kv\<in>set (new_buffer_map (snd (initialize t))).
            snd kv \<in> set (graph_inputs (new_graph (snd (initialize t)))))"
proof -
  let ?ins = "graph_inputs (graph (state t))"
  obtain r u where l1: "forE ?ins clone_input t = (r, u)" by (cases "forE ?ins clone_input t")
  have st: "state u = state t"
    using forE_keeps [where g = state and body = clone_input and xs = ?ins and s = t,
        OF clone_input_state] l1 by simp
  have nb: "new_buffer_map u = []"
    using forE_keeps [where g = new_buffer_map and body = clone_input and xs = ?ins and s = t,
        OF clone_input_buffers] l1 assms(2) by simp
  have inv: "\<forall>x. env u x \<noteq> Some None" "\<forall>x. env u x \<noteq> None \<longrightarrow> x \<in> set ?ins"
      "\<forall>x v. env u x = Some (Some v) \<longrightarrow> v \<in> set (graph_inputs (new_graph u))"
    and err: "\<forall>e. r = Inl e \<longrightarrow> e = DanglingReference"
    using clone_inputs_inv [of t ?ins] l1 assms(1) by simp_all
  show ?thesis
  proof (cases r)
    case (Inl e)
    with err have "e = DanglingReference" by simp
    with Inl l1 nb show ?thesis by (simp add: initialize_def bindE_def)
  next
    case (Inr x)
    then have i: "initialize t = forE (buffer_map (state t)) translate_buffer u"
      using l1 st by (simp add: initialize_def bindE_def)
    have "fst (forE (buffer_map (state t)) translate_buffer u) = Inl DanglingReference"
      if "kv \<in> set (buffer_map (state t))" "snd kv \<notin> set ?ins" for kv
    proof (rule translate_buffers_fail [where b = kv])
      show "env u (snd kv) = None" using inv(2) that(2) by auto
    qed (use inv that in auto)
    moreover have "\<forall>kv\<in>set (new_buffer_map (snd (forE (buffer_map (state t)) translate_buffer u))).
        snd kv \<in> set (graph_inputs (new_graph (snd (forE (buffer_map (state t)) translate_buffer u))))"
      by (rule translate_buffers_values) (use inv nb in auto)
    ultimately show ?thesis unfolding i by blast
  qed
qed

lemma resolve_output_error:
  "fst (resolve_output out s) = Inl e \<Longrightarrow> e = MissingOutputMapping"
  by (auto simp: resolve_output_def registerOutput_def modify_def split: option.splits)

lemma visit_node_orig:
  assumes "well_behaved orc"
  shows "orig_heap (snd (visit_node orc n s)) = orig_heap s"
  by (auto simp: visit_node_def with_stage_result dispatch_orig [OF assms] cloneNode_orig
      split: sum.splits bool.splits)

lemma initialize_orig: "orig_heap (snd (initialize s)) = orig_heap s"
  unfolding initialize_def
  by (intro bindE_keeps forE_keeps clone_input_orig translate_buffer_orig)

lemma ToONNX_orig:
  assumes "well_behaved orc"
  shows "orig_heap (snd (ToONNX orc s)) = orig_heap s"
proof (cases "is_expired (state s)")
  case True
  then show ?thesis by (simp add: ToONNX_def)
next
  case False
  have "orig_heap (snd (bindE (modify declare_locals) (\<lambda>_.
        bindE initialize (\<lambda>_.
        bindE (\<lambda>s. forE (graph_nodes (graph (state s))) (visit_node orc) s) (\<lambda>_.
        bindE (\<lambda>s. forE (graph_outputs (graph (state s))) resolve_output s) (\<lambda>_.
        bindE (\<lambda>s. modify (setStage_graph (graph_stage (graph (state s)))) s) (\<lambda>_.
        modify (\<lambda>s. s\<lparr>state := (state s)\<lparr>graph := new_graph s, buffer_map := new_buffer_map s\<rparr>\<rparr>)))))) s)) =
        orig_heap s"
    by (intro bindE_keeps forE_keeps initialize_orig visit_node_orig [OF assms] resolve_output_orig
        modify_keeps)
       (simp_all add: declare_locals_def)
  with False show ?thesis by (simp add: ToONNX_def)
qed

lemma well_behaved_ex: "well_behaved ex_oracles"
  by (simp add: well_behaved_def ex_oracles_def keeps_original_def new_nodes_def)

lemma map_update_fresh:
  "k \<notin> fst ` set m \<Longrightarrow> map_update k r m = m @ [(k, r)]"
  by (induction m) auto

lemma keys_map_update: "fst ` set (map_update k r m) = insert k (fst ` set m)"
  by (induction m) auto

lemma translate_buffer_ok:
  assumes "translate_buffer kv u = (Inr (), u')"
  obtains r where "env u (snd kv) = Some (Some r)"
    and "new_buffer_map u' = map_update (fst kv) r (new_buffer_map u)"
    and "env u' = env u" and "new_graph u' = new_graph u"
proof (cases "envFn (env u) (snd kv)")
  case (Inl e)
  with assms show ?thesis by (simp add: translate_buffer_def bindE_def lift_def)
next
  case (Inr r)
  then have "env u (snd kv) = Some (Some r)" by (simp add: envFn_Inr)
  moreover from Inr assms
  have "u' = u\<lparr>new_buffer_map := map_update (fst kv) r (new_buffer_map u)\<rparr>"
    by (simp add: translate_buffer_def bindE_def lift_def modify_def)
  ultimately show ?thesis by (intro that [of r]) simp_all
qed

text \<open>
  A translation that returns has put, for each entry in turn, the image of its node
  under its key.
\<close>

lemma translate_buffers_ok:
  assumes "forE bm translate_buffer u = (Inr (), u')"
  shows "env u' = env u \<and> new_graph u' = new_graph u \<and>
         (\<forall>kv\<in>set (new_buffer_map u').
            kv \<in> set (new_buffer_map u) \<or>
            (\<exists>v. (fst kv, v) \<in> set bm \<and> env u v = Some (Some (snd kv)))) \<and>
         fst ` set (new_buffer_map u') = fst ` set (new_buffer_map u) \<union> fst ` set bm \<and>
         (distinct (map fst bm) \<and> fst ` set (new_buffer_map u) \<inter> fst ` set bm = {} \<longrightarrow>
            (\<exists>tr. new_buffer_map u' = new_buffer_map u @ tr \<and>
                  list_all2 (\<lambda>kv kv'. fst kv' = fst kv \<and> env u (snd kv) = Some (Some (snd kv')))
                    bm tr))"
  using assms
proof (induction bm arbitrary: u)
  case Nil
  then show ?case by simp
next
  case (Cons kv bm)
  obtain r1 u1 where b: "translate_buffer kv u = (r1, u1)" by (cases "translate_buffer kv u")
  with Cons.prems have r1: "r1 = Inr ()" and rest: "forE bm translate_buffer u1 = (Inr (), u')"
    by (cases r1; simp)+
  from b r1 obtain r where r: "env u (snd kv) = Some (Some r)"
    and m1: "new_buffer_map u1 = map_update (fst kv) r (new_buffer_map u)"
    and e1: "env u1 = env u" and g1: "new_graph u1 = new_graph u"
    by (auto elim: translate_buffer_ok)
  note IH = Cons.IH [OF rest]
  have sub: "set (new_buffer_map u1) \<subseteq> insert (fst kv, r) (set (new_buffer_map u))"
    unfolding m1 by (rule set_map_update)
  have A: "kv' \<in> set (new_buffer_map u) \<or>
           (\<exists>v. (fst kv', v) \<in> set (kv # bm) \<and> env u v = Some (Some (snd kv')))"
    if "kv' \<in> set (new_buffer_map u')" for kv'
  proof -
    from IH that consider "kv' \<in> set (new_buffer_map u1)"
      | v where "(fst kv', v) \<in> set bm" "env u1 v = Some (Some (snd kv'))"
      by blast
    then show ?thesis
    proof cases
      case 1
      with sub have "kv' = (fst kv, r) \<or> kv' \<in> set (new_buffer_map u)" by auto
      then show ?thesis
      proof
        assume "kv' = (fst kv, r)"
        then have "(fst kv', snd kv) \<in> set (kv # bm)" "env u (snd kv) = Some (Some (snd kv'))"
          using r by simp_all
        then show ?thesis by blast
      qed simp
    next
      case 2
      then show ?thesis using e1 by auto
    qed
  qed
  have B: "fst ` set (new_buffer_map u') = fst ` set (new_buffer_map u) \<union> fst ` set (kv # bm)"
    using IH by (auto simp: m1 keys_map_update)
  have C: "\<exists>tr. new_buffer_map u' = new_buffer_map u @ tr \<and>
                  list_all2 (\<lambda>kv kv'. fst kv' = fst kv \<and> env u (snd kv) = Some (Some (snd kv')))
                    (kv # bm) tr"
    if d: "distinct (map fst (kv # bm))"
      and dj: "fst ` set (new_buffer_map u) \<inter> fst ` set (kv # bm) = {}"
  proof -
    have "fst kv \<notin> fst ` set (new_buffer_map u)" using dj by auto
    then have m1': "new_buffer_map u1 = new_buffer_map u @ [(fst kv, r)]"
      unfolding m1 by (rule map_update_fresh)
    have "distinct (map fst bm)" using d by simp
    moreover have "fst ` set (new_buffer_map u1) \<inter> fst ` set bm = {}"
      using d dj by (auto simp: m1')
    ultimately obtain tr where tr: "new_buffer_map u' = new_buffer_map u1 @ tr"
      "list_all2 (\<lambda>kv kv'. fst kv' = fst kv \<and> env u1 (snd kv) = Some (Some (snd kv'))) bm tr"
      using IH by blast
    have "new_buffer_map u' = new_buffer_map u @ ((fst kv, r) # tr)"
      using tr(1) by (simp add: m1')
    moreover have "list_all2 (\<lambda>kv kv'. fst kv' = fst kv \<and> env u (snd kv) = Some (Some (snd kv')))
                     (kv # bm) ((fst kv, r) # tr)"
      using tr(2) r by (simp add: e1)
    ultimately show ?thesis by blast
  qed
  have "env u' = env u" "new_graph u' = new_graph u" using IH e1 g1 by simp_all
  with A B C show ?case by blast
qed

lemma initialize_translated:
  assumes t: "env t = (\<lambda>_. None)" "new_buffer_map t = []"
    and ok: "fst (initialize t) = Inr ()"
  shows "(\<forall>kv\<in>set (new_buffer_map (snd (initialize t))).
            \<exists>v. (fst kv, v) \<in> set (buffer_map (state t)) \<and>
                env (snd (initialize t)) v = Some (Some (snd kv))) \<and>
         fst ` set (new_buffer_map (snd (initialize t))) = fst ` set (buffer_map (state t)) \<and>
         (distinct (map fst (buffer_map (state t))) \<longrightarrow>
            list_all2 (\<lambda>kv kv'. fst kv' = fst kv \<and>
                         env (snd (initialize t)) (snd kv) = Some (Some (snd kv')))
              (buffer_map (state t)) (new_buffer_map (snd (initialize t))))"
proof -
  let ?ins = "graph_inputs (graph (state t))"
  obtain r u where l1: "forE ?ins clone_input t = (r, u)" by (cases "forE ?ins clone_input t")
  have st: "state u = state t"
    using forE_keeps [where g = state and body = clone_input and xs = ?ins and s = t,
        OF clone_input_state] l1 by simp
  have nb: "new_buffer_map u = []"
    using forE_keeps [where g = new_buffer_map and body = clone_input and xs = ?ins and s = t,
        OF clone_input_buffers] l1 t(2) by simp
  from ok l1 have r: "r = Inr ()" by (cases r) (simp_all add: initialize_def bindE_def)
  then have i: "initialize t = forE (buffer_map (state t)) translate_buffer u"
    using l1 st by (simp add: initialize_def bindE_def)
  with ok have run: "forE (buffer_map (state t)) translate_buffer u = (Inr (), snd (initialize t))"
    by (cases "forE (buffer_map (state t)) translate_buffer u") simp
  note T = translate_buffers_ok [OF run]
  from T have e: "env (snd (initialize t)) = env u" by blast
  show ?thesis
  proof (intro conjI ballI impI)
    fix kv assume "kv \<in> set (new_buffer_map (snd (initialize t)))"
    with T nb show "\<exists>v. (fst kv, v) \<in> set (buffer_map (state t)) \<and>
                env (snd (initialize t)) v = Some (Some (snd kv))"
      unfolding e by auto
  next
    from T nb show "fst ` set (new_buffer_map (snd (initialize t))) = fst ` set (buffer_map (state t))"
      by simp
  next
    assume "distinct (map fst (buffer_map (state t)))"
    with T nb show "list_all2 (\<lambda>kv kv'. fst kv' = fst kv \<and>
                         env (snd (initialize t)) (snd kv) = Some (Some (snd kv')))
              (buffer_map (state t)) (new_buffer_map (snd (initialize t)))"
      unfolding e by auto
  qed
qed

lemma well_behaved_ex_buffer: "well_behaved ex_oracles_buffer"
  by (auto simp: well_behaved_def ex_oracles_buffer_def ex_oracles_def ex_symbolic_def
      keeps_original_def new_nodes_def Let_def)

section \<open>The claims\<close>

subsection \<open>The swap is the last statement\<close>

text \<open>
  C1. Replacing the graph and the buffer map of the tracing state is the last thing
  the pass does and the only thing it does to the tracing state: when the pass throws,
  whatever the exception, the tracing state is the one it was called with; when it
  returns, the tracing state differs from that one in its graph and its buffer map
  only, which are the new graph and the new buffer map. And the nodes of the original
  graph are as they were, whether the pass throws or returns, when the lowering
  routines keep their contract.
\<close>

theorem ToONNX_writes_state_last:
  "(\<forall>e. fst (ToONNX orc s) = Inl e \<longrightarrow> state (snd (ToONNX orc s)) = state s) \<and>
   (fst (ToONNX orc s) = Inr () \<longrightarrow>
      state (snd (ToONNX orc s)) =
        (state s)\<lparr>graph := new_graph (snd (ToONNX orc s)),
                  buffer_map := new_buffer_map (snd (ToONNX orc s))\<rparr>) \<and>
   (well_behaved orc \<longrightarrow> orig_heap (snd (ToONNX orc s)) = orig_heap s)"
  using ToONNX_commit [where orc = orc and s = s] ToONNX_orig [where orc = orc and s = s]
  by (cases "ToONNX orc s") (auto split: sum.splits)

theorem ToONNX_writes_state_last_witness:
  "fst (ToONNX ex_oracles ex_dangling) = Inl DanglingReference \<and>
   state (snd (ToONNX ex_oracles ex_dangling)) = state ex_dangling \<and>
   orig_heap (snd (ToONNX ex_oracles ex_dangling)) = orig_heap ex_dangling \<and>
   fst (ToONNX ex_oracles ex_undefined) = Inr () \<and>
   state (snd (ToONNX ex_oracles ex_undefined)) =
     (state ex_undefined)\<lparr>graph := new_graph (snd (ToONNX ex_oracles ex_undefined)),
                          buffer_map := new_buffer_map (snd (ToONNX ex_oracles ex_undefined))\<rparr>"
proof -
  have a: "fst (ToONNX ex_oracles ex_dangling) = Inl DanglingReference"
    by (simp add: ev)
  have b: "fst (ToONNX ex_oracles ex_undefined) = Inr ()"
    by (simp add: ev)
  have w: "well_behaved ex_oracles"
    by (rule well_behaved_ex)
  from a b w ToONNX_writes_state_last [where orc = ex_oracles and s = ex_dangling]
    ToONNX_writes_state_last [where orc = ex_oracles and s = ex_undefined]
  show ?thesis by blast
qed

text \<open>
  C8. Called on an expired tracing state, the pass throws the logic error at once:
  nothing is allocated, no lowering routine is called, and the state is the one the
  pass was called with.
\<close>

theorem ToONNX_expired:
  "is_expired (state s) \<Longrightarrow> ToONNX orc s = (Inl StaleTraceState, s)"
  by (simp add: ToONNX_def)

theorem ToONNX_expired_witness:
  "ToONNX ex_oracles ex_expired = (Inl StaleTraceState, ex_expired)"
proof -
  have "is_expired (state ex_expired)" by (simp add: ex_defs)
  then show ?thesis by (rule ToONNX_expired)
qed

subsection \<open>The environment\<close>

text \<open>
  C6. Looking a node up with \<open>envFn\<close> fails with the dangling-reference assertion when
  the environment has no entry for it, fails with the assertion on a used elided
  output when the entry is null, and otherwise returns the node of the entry. Wiring
  the inputs of a clone fails with the fault of the first input that \<open>envFn\<close> does not
  resolve, and succeeds when all of them resolve.
\<close>

theorem envFn_faults:
  "(e n = None \<longrightarrow> envFn e n = Inl DanglingReference) \<and>
   (e n = Some None \<longrightarrow> envFn e n = Inl UsedElidedOutput) \<and>
   (\<forall>v. e n = Some (Some v) \<longrightarrow> envFn e n = Inr v) \<and>
   fst (createClone n (envFn e) s) =
     (case fmap (inputs (heap s n)) (envFn e) of
        Inl err \<Rightarrow> Inl err
      | Inr vs \<Rightarrow> Inr (Fresh (next_unique s)))"
proof -
  have "fst (createClone n (envFn e) s) =
     (case fmap (inputs (heap s n)) (envFn e) of
        Inl err \<Rightarrow> Inl err
      | Inr vs \<Rightarrow> Inr (Fresh (next_unique s)))"
  proof (cases "fmap (inputs (heap s n)) (envFn e)")
    case (Inl err)
    then show ?thesis by (simp add: createClone_fail)
  next
    case (Inr vs)
    then show ?thesis by (simp add: createClone_ok)
  qed
  then show ?thesis by (simp add: envFn_def)
qed

theorem envFn_faults_witness:
  "envFn (env ex_undefined) (Orig 1) = Inl DanglingReference \<and>
   envFn ((env ex_undefined)(Orig 8 := Some None)) (Orig 8) = Inl UsedElidedOutput \<and>
   envFn (env ex_undefined) (Orig 0) = Inr (Fresh 0) \<and>
   fst (createClone (Orig 9) (envFn (env ex_undefined)) ex_undefined) = Inl DanglingReference"
proof -
  have a: "env ex_undefined (Orig 1) = None"
    and b: "((env ex_undefined)(Orig 8 := Some None)) (Orig 8) = Some None"
    and c: "env ex_undefined (Orig 0) = Some (Some (Fresh 0))"
    by (simp_all add: ex_defs)
  have d: "fmap (inputs (heap ex_undefined (Orig 9))) (envFn (env ex_undefined)) =
             Inl DanglingReference"
    by (simp add: ex_defs envFn_def)
  from envFn_faults [of "env ex_undefined" "Orig 9" ex_undefined]
  have "fst (createClone (Orig 9) (envFn (env ex_undefined)) ex_undefined) = Inl DanglingReference"
    by (simp add: d)
  with a b c envFn_faults [of "env ex_undefined" "Orig 1" ex_undefined]
    envFn_faults [of "(env ex_undefined)(Orig 8 := Some None)" "Orig 8" ex_undefined]
    envFn_faults [of "env ex_undefined" "Orig 0" ex_undefined]
  show ?thesis by blast
qed

subsection \<open>Arity and dropped outputs\<close>

text \<open>
  C2. When the list that a symbolic returned has a length other than the number of
  outputs of the node without its handle, \<open>setOutputs\<close> throws the arity error, which
  carries the operator name, the expected number and the length of the list, and it
  throws it in the state it was called in: no entry of the environment has been
  written. The same holds for a list returned by a Python symbolic.
\<close>

theorem setOutputs_arity_mismatch:
  assumes "hasHandleOutput (heap s) n = Inr has_handle"
    and "length outs \<noteq> length (outputs (heap s) n) - (if has_handle then 1 else 0)"
  shows "setOutputs op_name n outs s =
           (Inl (ArityMismatch op_name
                   (length (outputs (heap s) n) - (if has_handle then 1 else 0))
                   (length outs)), s) \<and>
         processSymbolicOutput op_name n (PyNodeList outs) s =
           (Inl (ArityMismatch op_name
                   (length (outputs (heap s) n) - (if has_handle then 1 else 0))
                   (length outs)), s)"
  using assms by (simp add: setOutputs_def processSymbolicOutput_def Let_def)

theorem setOutputs_arity_mismatch_witness:
  "setOutputs ''Relu'' (Orig 7) [Some (Fresh 5), Some (Fresh 6)] ex_undefined =
     (Inl (ArityMismatch ''Relu'' 1 2), ex_undefined) \<and>
   processSymbolicOutput ''Relu'' (Orig 7) (PyNodeList [Some (Fresh 5), Some (Fresh 6)]) ex_undefined =
     (Inl (ArityMismatch ''Relu'' 1 2), ex_undefined) \<and>
   fst (ToONNX ex_oracles_two ex_relu) = Inl (ArityMismatch ''Relu'' 1 2)"
proof -
  have h: "hasHandleOutput (heap ex_undefined) (Orig 7) = Inr False"
    by (simp add: ev)
  have p: "fst (ToONNX ex_oracles_two ex_relu) = Inl (ArityMismatch ''Relu'' 1 2)"
    by (simp add: ev)
  have k: "length (outputs (heap ex_undefined) (Orig 7)) = 1"
    by (simp add: ev)
  have l: "length [Some (Fresh 5), Some (Fresh 6)] \<noteq>
             length (outputs (heap ex_undefined) (Orig 7)) - (if False then 1 else 0)"
    by (simp add: k)
  from setOutputs_arity_mismatch [OF h l, where op_name = "''Relu''"] p show ?thesis
    by (simp add: k)
qed

text \<open>
  C3, as amended. For a list of the right length: when position \<open>i\<close> is the first
  position that holds null while the corresponding old output has a use,
  \<open>setOutputs\<close> throws the error on a dropped output, which carries the operator name
  and \<open>i\<close>. When the loop is at a position that holds null and the old output has no
  use, it records the null entry for the old output and goes on.
\<close>

theorem setOutputs_dropped_used_output:
  assumes hh: "hasHandleOutput (heap s) n = Inr has_handle"
    and len: "length outs = length (outputs (heap s) n) - (if has_handle then 1 else 0)"
    and i: "i < length outs" and null: "outs ! i = None"
    and used: "uses (heap s (outputs (heap s) n ! i)) \<noteq> []"
    and first: "\<forall>j<i. outs ! j = None \<longrightarrow> uses (heap s (outputs (heap s) n ! j)) = []"
  shows "fst (setOutputs op_name n outs s) = Inl (DroppedUsedOutput op_name i) \<and>
         (\<forall>old k t. uses (heap t old) = [] \<longrightarrow>
            setOutputs_entry op_name n (k, old, None) t =
              (Inr (), t\<lparr>env := (env t)(old := Some None)\<rparr>))"
proof -
  let ?olds = "outputs (heap s) n"
  let ?k = "length ?olds - (if has_handle then 1 else 0)"
  let ?xs = "zip [0 ..< ?k] (zip ?olds outs)"
  let ?g = "\<lambda>s a. uses (heap s a)"
  have k: "?k = length outs" "length outs \<le> length ?olds" using len by simp_all
  have lxs: "length ?xs = length outs" using k by simp
  have nth: "?xs ! j = (j, ?olds ! j, outs ! j)" if "j < length outs" for j
    using that k by simp
  have "fst (forE ?xs (setOutputs_entry op_name n) s) = Inl (DroppedUsedOutput op_name i)"
  proof (rule forE_first_failure [where g = ?g and c = "?g s" and i = i])
    show "?g (snd (setOutputs_entry op_name n x t)) = ?g t" for x t
      by (rule setOutputs_entry_uses)
    show "fst (setOutputs_entry op_name n (?xs ! j) t) = Inr ()" if "j < i" "?g t = ?g s" for j t
    proof -
      have j: "j < length outs" using that(1) i by simp
      have u: "uses (heap t a) = uses (heap s a)" for a using that(2) by (simp add: fun_eq_iff)
      show ?thesis
      proof (cases "outs ! j")
        case None
        with first that(1) have "uses (heap s (?olds ! j)) = []" by simp
        with None show ?thesis by (simp only: nth [OF j] setOutputs_entry_null u) simp
      next
        case (Some out)
        then show ?thesis by (simp only: nth [OF j] setOutputs_entry_node_ok)
      qed
    qed
    show "fst (setOutputs_entry op_name n (?xs ! i) t) = Inl (DroppedUsedOutput op_name i)"
      if "?g t = ?g s" for t
    proof -
      have u: "uses (heap t a) = uses (heap s a)" for a using that by (simp add: fun_eq_iff)
      show ?thesis using used null by (simp only: nth [OF i] setOutputs_entry_null u) simp
    qed
    show "i < length ?xs" using i lxs by simp
    show "?g s = ?g s" ..
  qed
  then have "fst (setOutputs op_name n outs s) = Inl (DroppedUsedOutput op_name i)"
    using hh len by (rule_tac setOutputs_loop_fails)
  then show ?thesis by (simp add: setOutputs_entry_null)
qed

theorem setOutputs_dropped_used_output_witness:
  "fst (setOutputs ''Relu'' (Orig 7) [None] ex_undefined) = Inl (DroppedUsedOutput ''Relu'' 0) \<and>
   setOutputs_entry ''Relu'' (Orig 7) (0, Orig 8, None) ex_undefined =
     (Inr (), ex_undefined\<lparr>env := (env ex_undefined)(Orig 8 := Some None)\<rparr>) \<and>
   fst (ToONNX ex_oracles ex_relu) = Inl (DroppedUsedOutput ''Relu'' 0)"
proof -
  have h: "hasHandleOutput (heap ex_undefined) (Orig 7) = Inr False"
    by (simp add: ev)
  have p: "fst (ToONNX ex_oracles ex_relu) = Inl (DroppedUsedOutput ''Relu'' 0)"
    by (simp add: ev)
  have l: "length [None :: node_ref option] =
             length (outputs (heap ex_undefined) (Orig 7)) - (if False then 1 else 0)"
    by (simp add: ev)
  have i: "0 < length [None :: node_ref option]"
    and n: "[None :: node_ref option] ! 0 = None"
    by simp_all
  have u: "uses (heap ex_undefined (outputs (heap ex_undefined) (Orig 7) ! 0)) \<noteq> []"
    by (simp add: ev)
  have f: "\<forall>j<0. [None :: node_ref option] ! j = None \<longrightarrow>
             uses (heap ex_undefined (outputs (heap ex_undefined) (Orig 7) ! j)) = []"
    by simp
  have u8: "uses (heap ex_undefined (Orig 8)) = []"
    by (simp add: ev)
  from setOutputs_dropped_used_output [OF h l i n u f, where op_name = "''Relu''"] u8 p
  show ?thesis by blast
qed

text \<open>
  C3, as stated, fails. A single-output operator whose output is used and whose
  symbolic returns two nulls makes \<open>setOutputs\<close> throw the arity error, not the error
  on a dropped output. And when two positions hold null for used outputs, the error
  names the first of them, so it does not name position 1 although that position
  holds null for a used output too.
\<close>

theorem setOutputs_dropped_counterexample:
  "[None, None] ! 0 = (None :: node_ref option) \<and>
   uses (heap ex_undefined (outputs (heap ex_undefined) (Orig 7) ! 0)) \<noteq> [] \<and>
   setOutputs ''Relu'' (Orig 7) [None, None] ex_undefined =
     (Inl (ArityMismatch ''Relu'' 1 2), ex_undefined) \<and>
   fst (setOutputs ''Relu'' (Orig 7) [None, None] ex_undefined) \<noteq>
     Inl (DroppedUsedOutput ''Relu'' 0) \<and>
   [None, None] ! 1 = (None :: node_ref option) \<and>
   uses (heap ex_undefined (outputs (heap ex_undefined) (Orig 1) ! 1)) \<noteq> [] \<and>
   fst (setOutputs ''RNN'' (Orig 1) [None, None] ex_undefined) \<noteq>
     Inl (DroppedUsedOutput ''RNN'' 1)"
  by (simp add: ev)

subsection \<open>Types of the lowered outputs\<close>

text \<open>
  C4. For a node that a symbolic returned, the loop of \<open>setOutputs\<close> copies the type
  of the old output onto it exactly when it has no type at that moment, and leaves
  its type alone otherwise. Hence after a \<open>setOutputs\<close> that returns, a node that the
  list holds once, at position \<open>i\<close>, has the type it came with, or, if it came
  without one, the type of old output \<open>i\<close> (provided no earlier entry of the list is
  that old output itself).
\<close>

theorem setOutputs_fill_never_overwrite:
  "type_opt (heap (snd (setOutputs_entry op_name n (k, old, Some out) t)) out) =
     (if type_opt (heap t out) = None then type_opt (heap t old) else type_opt (heap t out)) \<and>
   (fst (setOutputs op_name n outs s) = Inr () \<and> i < length outs \<and> outs ! i = Some res \<and>
    (\<forall>j<length outs. j \<noteq> i \<longrightarrow> outs ! j \<noteq> Some res) \<and>
    (\<forall>j<i. outs ! j \<noteq> Some (outputs (heap s) n ! i)) \<longrightarrow>
      type_opt (heap (snd (setOutputs op_name n outs s)) res) =
        (if type_opt (heap s res) = None then type_opt (heap s (outputs (heap s) n ! i))
         else type_opt (heap s res)))"
proof (intro conjI impI)
  show "type_opt (heap (snd (setOutputs_entry op_name n (k, old, Some out) t)) out) =
     (if type_opt (heap t out) = None then type_opt (heap t old) else type_opt (heap t out))"
    using setOutputs_entry_type [of op_name n k old out t] by simp
next
  assume a: "fst (setOutputs op_name n outs s) = Inr () \<and> i < length outs \<and> outs ! i = Some res \<and>
    (\<forall>j<length outs. j \<noteq> i \<longrightarrow> outs ! j \<noteq> Some res) \<and>
    (\<forall>j<i. outs ! j \<noteq> Some (outputs (heap s) n ! i))"
  show "type_opt (heap (snd (setOutputs op_name n outs s)) res) =
        (if type_opt (heap s res) = None then type_opt (heap s (outputs (heap s) n ! i))
         else type_opt (heap s res))"
    by (rule setOutputs_type) (use a in blast)+
qed

theorem setOutputs_fill_never_overwrite_witness:
  "fst (setOutputs ''Relu'' (Orig 7) [Some (Fresh 5)] ex_undefined) = Inr () \<and>
   type_opt (heap (snd (setOutputs ''Relu'' (Orig 7) [Some (Fresh 5)] ex_undefined)) (Fresh 5)) =
     Some (TensorType [6]) \<and>
   fst (setOutputs ''Relu'' (Orig 7) [Some (Fresh 6)] ex_undefined) = Inr () \<and>
   type_opt (heap (snd (setOutputs ''Relu'' (Orig 7) [Some (Fresh 6)] ex_undefined)) (Fresh 6)) =
     Some (TensorType [2, 3])"
proof -
  have ok5: "fst (setOutputs ''Relu'' (Orig 7) [Some (Fresh 5)] ex_undefined) = Inr ()"
    and ok6: "fst (setOutputs ''Relu'' (Orig 7) [Some (Fresh 6)] ex_undefined) = Inr ()"
    by (simp_all add: ev)
  have t: "type_opt (heap ex_undefined (Fresh 5)) = Some (TensorType [6])"
      "type_opt (heap ex_undefined (Fresh 6)) = None"
      "type_opt (heap ex_undefined (outputs (heap ex_undefined) (Orig 7) ! 0)) = Some (TensorType [2, 3])"
    by (simp_all add: ev)
  have "type_opt (heap (snd (setOutputs ''Relu'' (Orig 7) [Some (Fresh 5)] ex_undefined)) (Fresh 5)) =
          (if type_opt (heap ex_undefined (Fresh 5)) = None
           then type_opt (heap ex_undefined (outputs (heap ex_undefined) (Orig 7) ! 0))
           else type_opt (heap ex_undefined (Fresh 5)))"
    using setOutputs_fill_never_overwrite
      [where s = ex_undefined and n = "Orig 7" and outs = "[Some (Fresh 5)]" and i = 0
         and res = "Fresh 5" and op_name = "''Relu''"] ok5
    by simp
  moreover
  have "type_opt (heap (snd (setOutputs ''Relu'' (Orig 7) [Some (Fresh 6)] ex_undefined)) (Fresh 6)) =
          (if type_opt (heap ex_undefined (Fresh 6)) = None
           then type_opt (heap ex_undefined (outputs (heap ex_undefined) (Orig 7) ! 0))
           else type_opt (heap ex_undefined (Fresh 6)))"
    using setOutputs_fill_never_overwrite
      [where s = ex_undefined and n = "Orig 7" and outs = "[Some (Fresh 6)]" and i = 0
         and res = "Fresh 6" and op_name = "''Relu''"] ok6
    by simp
  ultimately show ?thesis using ok5 ok6 by (simp add: t)
qed

subsection \<open>Nodes that are cloned\<close>

text \<open>
  C5. A multi-output node whose handle output has a use is cloned without running
  the dispatch: the iteration is \<open>cloneNode\<close>, which takes no lowering routine, and the
  log of the calls is unchanged. It throws only the faults of \<open>envFn\<close>. When it returns
  (for nodes of the original graph), the node and each of its users, which are its
  outputs, are mapped to structural clones appended to the new graph.
\<close>

theorem used_handle_node_is_cloned:
  assumes "hasMultipleOutputs (heap s n)" and "hasUsedHandle (heap s) n = Inr True"
  shows "visit_node orc n s = cloneNode n s \<and>
         calls (snd (visit_node orc n s)) = calls s \<and>
         (\<forall>e. fst (visit_node orc n s) = Inl e \<longrightarrow> e = DanglingReference \<or> e = UsedElidedOutput) \<and>
         (is_orig n \<and> (\<forall>x\<in>set (outputs (heap s) n). is_orig x) \<and>
          fst (visit_node orc n s) = Inr () \<longrightarrow>
            cloned s (snd (visit_node orc n s)) (n # outputs (heap s) n) n \<and>
            (\<forall>x\<in>set (outputs (heap s) n).
               cloned s (snd (visit_node orc n s)) (outputs (heap s) n) x))"
proof -
  have v: "visit_node orc n s = cloneNode n s"
    using assms by (simp add: visit_node_def)
  show ?thesis
    unfolding v
    by (intro conjI allI impI cloneNode_calls)
       (auto dest: cloneNode_error cloneNode_spec_snd)
qed

theorem used_handle_node_is_cloned_witness:
  "visit_node ex_oracles (Orig 1) ex_undefined = cloneNode (Orig 1) ex_undefined \<and>
   calls (snd (visit_node ex_oracles (Orig 1) ex_undefined)) = [] \<and>
   fst (visit_node ex_oracles (Orig 1) ex_undefined) = Inr () \<and>
   cloned ex_undefined (snd (visit_node ex_oracles (Orig 1) ex_undefined))
     [Orig 1, Orig 2, Orig 3, Orig 4] (Orig 1) \<and>
   cloned ex_undefined (snd (visit_node ex_oracles (Orig 1) ex_undefined))
     [Orig 2, Orig 3, Orig 4] (Orig 2) \<and>
   cloned ex_undefined (snd (visit_node ex_oracles (Orig 1) ex_undefined))
     [Orig 2, Orig 3, Orig 4] (Orig 3) \<and>
   cloned ex_undefined (snd (visit_node ex_oracles (Orig 1) ex_undefined))
     [Orig 2, Orig 3, Orig 4] (Orig 4) \<and>
   fst (ToONNX ex_oracles ex_rnn) = Inr () \<and>
   calls (snd (ToONNX ex_oracles ex_rnn)) = [] \<and>
   graph_nodes (graph (state (snd (ToONNX ex_oracles ex_rnn)))) =
     [Fresh 11, Fresh 12, Fresh 13, Fresh 14]"
proof -
  have p: "fst (ToONNX ex_oracles ex_rnn) = Inr ()"
      "calls (snd (ToONNX ex_oracles ex_rnn)) = []"
      "graph_nodes (graph (state (snd (ToONNX ex_oracles ex_rnn)))) =
         [Fresh 11, Fresh 12, Fresh 13, Fresh 14]"
    by (simp_all add: ev)
  have h1: "hasMultipleOutputs (heap ex_undefined (Orig 1))"
    and h2: "hasUsedHandle (heap ex_undefined) (Orig 1) = Inr True"
    and o: "outputs (heap ex_undefined) (Orig 1) = [Orig 2, Orig 3, Orig 4]"
    and c: "calls ex_undefined = []"
    by (simp_all add: ev)
  have ok: "fst (cloneNode (Orig 1) ex_undefined) = Inr ()"
    by (simp add: ev)
  note T = used_handle_node_is_cloned [OF h1 h2, where orc = ex_oracles]
  from T have v: "visit_node ex_oracles (Orig 1) ex_undefined = cloneNode (Orig 1) ex_undefined"
    and l: "calls (snd (visit_node ex_oracles (Orig 1) ex_undefined)) = calls ex_undefined"
    by blast+
  have pre: "is_orig (Orig 1) \<and> (\<forall>x\<in>set (outputs (heap ex_undefined) (Orig 1)). is_orig x) \<and>
             fst (visit_node ex_oracles (Orig 1) ex_undefined) = Inr ()"
    unfolding v o using ok by simp
  with T have "cloned ex_undefined (snd (visit_node ex_oracles (Orig 1) ex_undefined))
                 (Orig 1 # outputs (heap ex_undefined) (Orig 1)) (Orig 1) \<and>
               (\<forall>x\<in>set (outputs (heap ex_undefined) (Orig 1)).
                  cloned ex_undefined (snd (visit_node ex_oracles (Orig 1) ex_undefined))
                    (outputs (heap ex_undefined) (Orig 1)) x)"
    by blast
  then have "cloned ex_undefined (snd (visit_node ex_oracles (Orig 1) ex_undefined))
               [Orig 1, Orig 2, Orig 3, Orig 4] (Orig 1) \<and>
             cloned ex_undefined (snd (visit_node ex_oracles (Orig 1) ex_undefined))
               [Orig 2, Orig 3, Orig 4] (Orig 2) \<and>
             cloned ex_undefined (snd (visit_node ex_oracles (Orig 1) ex_undefined))
               [Orig 2, Orig 3, Orig 4] (Orig 3) \<and>
             cloned ex_undefined (snd (visit_node ex_oracles (Orig 1) ex_undefined))
               [Orig 2, Orig 3, Orig 4] (Orig 4)"
    unfolding o by simp
  moreover from l c have "calls (snd (visit_node ex_oracles (Orig 1) ex_undefined)) = []"
    by simp
  ultimately show ?thesis using v pre p by blast
qed

text \<open>
  C7. A node of kind \<open>Undefined\<close> is cloned whatever the lowering routines are: the
  iteration is the same for any two sets of routines and calls none of them. When it
  returns (for nodes of the original graph), the node, and each of its users if it
  has multiple outputs, is mapped to a structural clone appended to the new graph.
\<close>

theorem undefined_node_is_cloned:
  assumes "kind (heap s n) = kUndefined"
  shows "visit_node orc n s = visit_node orc' n s \<and>
         calls (snd (visit_node orc n s)) = calls s \<and>
         (is_orig n \<and> (\<forall>x\<in>set (outputs (heap s) n). is_orig x) \<and>
          fst (visit_node orc n s) = Inr () \<longrightarrow>
            cloned s (snd (visit_node orc n s)) (n # outputs (heap s) n) n \<and>
            (\<forall>x\<in>set (outputs (heap s) n).
               cloned s (snd (visit_node orc n s)) (outputs (heap s) n) x))"
proof -
  let ?t = "setStage_graph (stage (heap s n)) s"
  have d: "dispatch o' n ?t = cloneNode n ?t" for o'
    using assms by (simp add: dispatch_undefined)
  have w: "with_stage (stage (heap s n)) (dispatch o' n) s =
             (fst (cloneNode n ?t), setStage_graph (graph_stage (new_graph s)) (snd (cloneNode n ?t)))"
    for o'
    by (simp add: with_stage_result d)
  consider (err) e where "hasMultipleOutputs (heap s n)" "hasUsedHandle (heap s) n = Inl e"
    | (used) "hasMultipleOutputs (heap s n)" "hasUsedHandle (heap s) n = Inr True"
    | (guarded) "\<And>o'. visit_node o' n s =
        (fst (cloneNode n ?t), setStage_graph (graph_stage (new_graph s)) (snd (cloneNode n ?t)))"
  proof (cases "hasMultipleOutputs (heap s n)")
    case False
    then have "visit_node o' n s =
        (fst (cloneNode n ?t), setStage_graph (graph_stage (new_graph s)) (snd (cloneNode n ?t)))" for o'
      by (simp add: visit_node_def w)
    then show ?thesis by (rule guarded)
  next
    case True
    show ?thesis
    proof (cases "hasUsedHandle (heap s) n")
      case (Inl e)
      with True show ?thesis by (rule err)
    next
      case (Inr b)
      show ?thesis
      proof (cases b)
        case True
        with Inr \<open>hasMultipleOutputs (heap s n)\<close> show ?thesis by (auto intro: used)
      next
        case False
        with Inr \<open>hasMultipleOutputs (heap s n)\<close>
        have "visit_node o' n s =
          (fst (cloneNode n ?t), setStage_graph (graph_stage (new_graph s)) (snd (cloneNode n ?t)))" for o'
          by (simp add: visit_node_def w)
        then show ?thesis by (rule guarded)
      qed
    qed
  qed
  then show ?thesis
  proof cases
    case err
    then show ?thesis by (simp add: visit_node_def)
  next
    case used
    then have v: "visit_node o' n s = cloneNode n s" for o' by (simp add: visit_node_def)
    show ?thesis
      unfolding v by (intro conjI impI cloneNode_calls refl) (auto dest: cloneNode_spec_snd)
  next
    case guarded
    have c: "calls (snd (cloneNode n ?t)) = calls s" by (simp add: cloneNode_calls)
    have "cloned s (setStage_graph (graph_stage (new_graph s)) (snd (cloneNode n ?t)))
            (n # outputs (heap s) n) n \<and>
          (\<forall>x\<in>set (outputs (heap s) n).
             cloned s (setStage_graph (graph_stage (new_graph s)) (snd (cloneNode n ?t)))
               (outputs (heap s) n) x)"
      if "is_orig n" "\<forall>x\<in>set (outputs (heap s) n). is_orig x" "fst (cloneNode n ?t) = Inr ()"
    proof -
      have "cloned ?t (snd (cloneNode n ?t)) (n # outputs (heap ?t) n) n \<and>
            (\<forall>x\<in>set (outputs (heap ?t) n). cloned ?t (snd (cloneNode n ?t)) (outputs (heap ?t) n) x)"
        by (rule cloneNode_spec_snd) (use that in simp_all)
      then show ?thesis by simp
    qed
    then show ?thesis by (simp add: guarded c)
  qed
qed

theorem undefined_node_is_cloned_witness:
  "visit_node ex_oracles (Orig 6) ex_undefined =
     visit_node (ex_oracles\<lparr>run_symbolic_function := (\<lambda>_ _ ctx. (Inl ''no symbolic'', ctx))\<rparr>)
       (Orig 6) ex_undefined \<and>
   calls (snd (visit_node ex_oracles (Orig 6) ex_undefined)) = [] \<and>
   fst (visit_node ex_oracles (Orig 6) ex_undefined) = Inr () \<and>
   cloned ex_undefined (snd (visit_node ex_oracles (Orig 6) ex_undefined)) [Orig 6] (Orig 6)"
proof -
  have h: "kind (heap ex_undefined (Orig 6)) = kUndefined"
    and o: "outputs (heap ex_undefined) (Orig 6) = [Orig 6]"
    and c: "calls ex_undefined = []"
    by (simp_all add: ev)
  have ok: "fst (visit_node ex_oracles (Orig 6) ex_undefined) = Inr ()"
    by (simp add: ev)
  note T = undefined_node_is_cloned [OF h, where orc = ex_oracles
      and orc' = "ex_oracles\<lparr>run_symbolic_function := (\<lambda>_ _ ctx. (Inl ''no symbolic'', ctx))\<rparr>"]
  from T have v: "visit_node ex_oracles (Orig 6) ex_undefined =
      visit_node (ex_oracles\<lparr>run_symbolic_function := (\<lambda>_ _ ctx. (Inl ''no symbolic'', ctx))\<rparr>)
        (Orig 6) ex_undefined"
    and l: "calls (snd (visit_node ex_oracles (Orig 6) ex_undefined)) = calls ex_undefined"
    by blast+
  have pre: "is_orig (Orig 6) \<and> (\<forall>x\<in>set (outputs (heap ex_undefined) (Orig 6)). is_orig x) \<and>
             fst (visit_node ex_oracles (Orig 6) ex_undefined) = Inr ()"
    using ok by (simp add: o)
  with T have "\<forall>x\<in>set (outputs (heap ex_undefined) (Orig 6)).
                 cloned ex_undefined (snd (visit_node ex_oracles (Orig 6) ex_undefined))
                   (outputs (heap ex_undefined) (Orig 6)) x"
    by blast
  then have "cloned ex_undefined (snd (visit_node ex_oracles (Orig 6) ex_undefined)) [Orig 6] (Orig 6)"
    unfolding o by simp
  moreover from l c have "calls (snd (visit_node ex_oracles (Orig 6) ex_undefined)) = []"
    by simp
  ultimately show ?thesis using v ok by blast
qed

subsection \<open>Graph outputs\<close>

text \<open>
  C9. Registering the outputs looks the environment up directly: an output whose
  entry is null is registered as a null output of the new graph, where \<open>envFn\<close> on the
  same node fails with the assertion on a used elided output. The loop over the
  outputs throws nothing but the error of a missing entry.
\<close>

theorem resolve_output_elided:
  "(env s out = Some None \<longrightarrow>
      resolve_output (Some out) s =
        (Inr (), s\<lparr>new_graph := (new_graph s)\<lparr>graph_outputs := graph_outputs (new_graph s) @ [None]\<rparr>\<rparr>) \<and>
      envFn (env s) out = Inl UsedElidedOutput) \<and>
   (\<forall>e. fst (forE outs resolve_output s) = Inl e \<longrightarrow> e = MissingOutputMapping)"
proof -
  have "e = MissingOutputMapping" if "fst (forE outs resolve_output s) = Inl e" for e
    using that by (rule forE_error [where P = "\<lambda>e. e = MissingOutputMapping", rotated])
      (rule resolve_output_error)
  then show ?thesis
    by (simp add: resolve_output_def registerOutput_def modify_def envFn_def)
qed

theorem resolve_output_elided_witness:
  "resolve_output (Some (Orig 7)) (ex_undefined\<lparr>env := (env ex_undefined)(Orig 7 := Some None)\<rparr>) =
     (Inr (), ex_undefined\<lparr>env := (env ex_undefined)(Orig 7 := Some None),
                new_graph := (new_graph ex_undefined)\<lparr>graph_outputs := graph_outputs (new_graph ex_undefined) @ [None]\<rparr>\<rparr>) \<and>
   envFn ((env ex_undefined)(Orig 7 := Some None)) (Orig 7) = Inl UsedElidedOutput \<and>
   fst (ToONNX ex_oracles ex_elided) = Inr () \<and>
   graph_outputs (graph (state (snd (ToONNX ex_oracles ex_elided)))) = [None]"
proof -
  have e: "env (ex_undefined\<lparr>env := (env ex_undefined)(Orig 7 := Some None)\<rparr>) (Orig 7) = Some None"
    by simp
  have p: "fst (ToONNX ex_oracles ex_elided) = Inr ()"
      "graph_outputs (graph (state (snd (ToONNX ex_oracles ex_elided)))) = [None]"
    by (simp_all add: ev)
  from resolve_output_elided
    [where s = "ex_undefined\<lparr>env := (env ex_undefined)(Orig 7 := Some None)\<rparr>" and out = "Orig 7"] e p
  show ?thesis by simp
qed

subsection \<open>The buffer map\<close>

text \<open>
  The buffer map is translated by the initialization, which calls no lowering
  routine, and the rest of the pass does not write the new buffer map unless the
  symbolic of an autograd function does so through the context.
\<close>

lemma buffer_map_frame:
  assumes live: "\<not> is_expired (state s)"
  shows "(\<forall>kv\<in>set (buffer_map (state s)).
            snd kv \<notin> set (graph_inputs (graph (state s))) \<longrightarrow>
              fst (ToONNX orc s) = Inl DanglingReference \<and> calls (snd (ToONNX orc s)) = calls s) \<and>
         calls (snd (initialize (declare_locals s))) = calls s \<and>
         (\<forall>kv\<in>set (new_buffer_map (snd (initialize (declare_locals s)))).
            snd kv \<in> set (graph_inputs (new_graph (snd (initialize (declare_locals s)))))) \<and>
         (fst (ToONNX orc s) = Inr () \<and>
          (\<forall>fid f ctx ins. symbolic orc fid = Some f \<longrightarrow>
             ctx_buffer_map (snd (f ctx ins)) = ctx_buffer_map ctx) \<longrightarrow>
            buffer_map (state (snd (ToONNX orc s))) =
              new_buffer_map (snd (initialize (declare_locals s))))"
proof -
  let ?t = "declare_locals s"
  have t: "env ?t = (\<lambda>_. None)" "new_buffer_map ?t = []" "state ?t = state s" "calls ?t = calls s"
    by (simp_all add: declare_locals_def)
  note spec = initialize_spec [OF t(1,2)]
  have c: "calls (snd (initialize ?t)) = calls s" by (simp add: initialize_calls t)
  have 1: "fst (ToONNX orc s) = Inl DanglingReference \<and> calls (snd (ToONNX orc s)) = calls s"
    if "kv \<in> set (buffer_map (state s))" "snd kv \<notin> set (graph_inputs (graph (state s)))" for kv
  proof -
    from spec that have "fst (initialize ?t) = Inl DanglingReference" by (auto simp: t)
    then show ?thesis
      using c by (cases "initialize ?t") (simp add: ToONNX_unfold [OF live])
  qed
  have 3: "buffer_map (state (snd (ToONNX orc s))) = new_buffer_map (snd (initialize ?t))"
    if ok: "fst (ToONNX orc s) = Inr ()"
      and pres: "\<forall>fid f ctx ins. symbolic orc fid = Some f \<longrightarrow>
             ctx_buffer_map (snd (f ctx ins)) = ctx_buffer_map ctx"
  proof -
    obtain r s1 where i: "initialize ?t = (r, s1)" by (cases "initialize ?t")
    with ok have r: "r = Inr ()" by (cases r) (simp_all add: ToONNX_unfold [OF live])
    let ?bm = "\<lambda>s. buffer_map (state s)"
    let ?D = "modify (\<lambda>s. s\<lparr>state := (state s)\<lparr>graph := new_graph s, buffer_map := new_buffer_map s\<rparr>\<rparr>)"
    let ?C = "bindE (\<lambda>s. modify (setStage_graph (graph_stage (graph (state s)))) s) (\<lambda>_. ?D)"
    let ?B = "bindE (\<lambda>s. forE (graph_outputs (graph (state s))) resolve_output s) (\<lambda>_. ?C)"
    let ?A = "bindE (\<lambda>s. forE (graph_nodes (graph (state s))) (visit_node orc) s) (\<lambda>_. ?B)"
    have T: "ToONNX orc s = ?A s1" using i r by (simp add: ToONNX_unfold [OF live])
    have vb: "new_buffer_map (snd (visit_node orc n u)) = new_buffer_map u" for n u
      by (rule visit_node_buffers) (use pres in auto)
    have D: "?bm (snd (?D u)) = new_buffer_map u" for u by (simp add: modify_def)
    have C: "?bm (snd (?C u)) = new_buffer_map u" if "fst (?C u) = Inr ()" for u
      by (rule bindE_result [where g = new_buffer_map and h = ?bm, OF _ _ that])
         (simp_all add: modify_def setStage_graph_def)
    have B: "?bm (snd (?B u)) = new_buffer_map u" if "fst (?B u) = Inr ()" for u
    proof (rule bindE_result [where g = new_buffer_map and h = ?bm, OF _ _ that])
      show "new_buffer_map (snd (forE (graph_outputs (graph (state v))) resolve_output v)) =
            new_buffer_map v" for v
        by (rule forE_keeps) (rule resolve_output_buffers)
      show "?bm (snd (?C v)) = new_buffer_map v" if "fst (?C v) = Inr ()" for v
        using that by (rule C)
    qed
    have A: "?bm (snd (?A u)) = new_buffer_map u" if "fst (?A u) = Inr ()" for u
    proof (rule bindE_result [where g = new_buffer_map and h = ?bm, OF _ _ that])
      show "new_buffer_map (snd (forE (graph_nodes (graph (state v))) (visit_node orc) v)) =
            new_buffer_map v" for v
        by (rule forE_keeps) (rule vb)
      show "?bm (snd (?B v)) = new_buffer_map v" if "fst (?B v) = Inr ()" for v
        using that by (rule B)
    qed
    have "?bm (snd (?A s1)) = new_buffer_map s1"
      by (rule A) (use ok T in simp)
    with T i show ?thesis by simp
  qed
  show ?thesis
  proof (intro conjI ballI impI)
    fix kv assume "kv \<in> set (buffer_map (state s))"
      "snd kv \<notin> set (graph_inputs (graph (state s)))"
    then show "fst (ToONNX orc s) = Inl DanglingReference" "calls (snd (ToONNX orc s)) = calls s"
      using 1 by blast+
  next
    show "calls (snd (initialize ?t)) = calls s" by (rule c)
  next
    fix kv assume "kv \<in> set (new_buffer_map (snd (initialize ?t)))"
    with spec show "snd kv \<in> set (graph_inputs (new_graph (snd (initialize ?t))))" by blast
  next
    assume "fst (ToONNX orc s) = Inr () \<and>
          (\<forall>fid f ctx ins. symbolic orc fid = Some f \<longrightarrow>
             ctx_buffer_map (snd (f ctx ins)) = ctx_buffer_map ctx)"
    then show "buffer_map (state (snd (ToONNX orc s))) = new_buffer_map (snd (initialize ?t))"
      using 3 by blast
  qed

qed

text \<open>
  C10, as amended. For a live tracing state, the buffer map is translated through
  the environment by the initialization, after the inputs are cloned and before any
  lowering routine is called: every entry of the translated map holds, under a key
  of the old map, the node that the environment gives for a node the old map held
  under that key, and this node is an input of the new graph; when the keys are
  distinct the translated map is the old one, entry by entry, with each node replaced
  by what the environment gives for it. So when the node of some entry is not an
  input of the graph, the pass throws the dangling-reference assertion and no
  lowering routine has been called. The pass does not write the translated map
  afterwards: the map that a returning pass installs is the translated one, unless
  the symbolic of an autograd function writes the map through the context.
\<close>

theorem buffer_map_translated_before_dispatch:
  assumes live: "\<not> is_expired (state s)"
  shows "(\<forall>kv\<in>set (buffer_map (state s)).
            snd kv \<notin> set (graph_inputs (graph (state s))) \<longrightarrow>
              fst (ToONNX orc s) = Inl DanglingReference \<and> calls (snd (ToONNX orc s)) = calls s) \<and>
         calls (snd (initialize (declare_locals s))) = calls s \<and>
         (\<forall>kv\<in>set (new_buffer_map (snd (initialize (declare_locals s)))).
            snd kv \<in> set (graph_inputs (new_graph (snd (initialize (declare_locals s)))))) \<and>
         (fst (initialize (declare_locals s)) = Inr () \<longrightarrow>
            (\<forall>kv\<in>set (new_buffer_map (snd (initialize (declare_locals s)))).
               \<exists>v. (fst kv, v) \<in> set (buffer_map (state s)) \<and>
                   env (snd (initialize (declare_locals s))) v = Some (Some (snd kv))) \<and>
            fst ` set (new_buffer_map (snd (initialize (declare_locals s)))) =
              fst ` set (buffer_map (state s)) \<and>
            (distinct (map fst (buffer_map (state s))) \<longrightarrow>
               list_all2 (\<lambda>kv kv'. fst kv' = fst kv \<and>
                            env (snd (initialize (declare_locals s))) (snd kv) = Some (Some (snd kv')))
                 (buffer_map (state s)) (new_buffer_map (snd (initialize (declare_locals s)))))) \<and>
         (fst (ToONNX orc s) = Inr () \<and>
          (\<forall>fid f ctx ins. symbolic orc fid = Some f \<longrightarrow>
             ctx_buffer_map (snd (f ctx ins)) = ctx_buffer_map ctx) \<longrightarrow>
            buffer_map (state (snd (ToONNX orc s))) =
              new_buffer_map (snd (initialize (declare_locals s))))"
proof -
  let ?t = "declare_locals s"
  have t: "env ?t = (\<lambda>_. None)" "new_buffer_map ?t = []" "state ?t = state s"
    by (simp_all add: declare_locals_def)
  note F = buffer_map_frame [OF live, where orc = orc]
  note T = initialize_translated [OF t(1,2), unfolded t(3)]
  from F have 1: "\<forall>kv\<in>set (buffer_map (state s)).
            snd kv \<notin> set (graph_inputs (graph (state s))) \<longrightarrow>
              fst (ToONNX orc s) = Inl DanglingReference \<and> calls (snd (ToONNX orc s)) = calls s"
    and 2: "calls (snd (initialize ?t)) = calls s"
    and 3: "\<forall>kv\<in>set (new_buffer_map (snd (initialize ?t))).
            snd kv \<in> set (graph_inputs (new_graph (snd (initialize ?t))))"
    and 5: "fst (ToONNX orc s) = Inr () \<and>
          (\<forall>fid f ctx ins. symbolic orc fid = Some f \<longrightarrow>
             ctx_buffer_map (snd (f ctx ins)) = ctx_buffer_map ctx) \<longrightarrow>
            buffer_map (state (snd (ToONNX orc s))) = new_buffer_map (snd (initialize ?t))"
    by blast+
  show ?thesis
    by (rule conjI [OF 1 conjI [OF 2 conjI [OF 3 conjI [OF _ 5]]]]) (rule impI, erule T)
qed

theorem buffer_map_translated_before_dispatch_witness:
  "fst (ToONNX ex_oracles ex_bad_buffer) = Inl DanglingReference \<and>
   calls (snd (ToONNX ex_oracles ex_bad_buffer)) = [] \<and>
   fst (ToONNX ex_oracles ex_undefined) = Inr () \<and>
   buffer_map (state (snd (ToONNX ex_oracles ex_undefined))) =
     new_buffer_map (snd (initialize (declare_locals ex_undefined))) \<and>
   new_buffer_map (snd (initialize (declare_locals ex_undefined))) = [(100, Fresh 10)] \<and>
   fst (initialize (declare_locals ex_two_buffers)) = Inr () \<and>
   new_buffer_map (snd (initialize (declare_locals ex_two_buffers))) =
     [(100, Fresh 11), (200, Fresh 10)] \<and>
   env (snd (initialize (declare_locals ex_two_buffers))) (Orig 8) = Some (Some (Fresh 11)) \<and>
   env (snd (initialize (declare_locals ex_two_buffers))) (Orig 0) = Some (Some (Fresh 10))"
proof -
  have live: "\<not> is_expired (state ex_bad_buffer)" "\<not> is_expired (state ex_undefined)"
      "\<not> is_expired (state ex_two_buffers)"
    by (simp_all add: ex_defs)
  have bad: "(100, Orig 6) \<in> set (buffer_map (state ex_bad_buffer))"
      "snd (100 :: nat, Orig 6) \<notin> set (graph_inputs (graph (state ex_bad_buffer)))"
    and c: "calls ex_bad_buffer = []"
    by (simp_all add: ex_defs)
  have ok: "fst (ToONNX ex_oracles ex_undefined) = Inr ()"
    and v: "new_buffer_map (snd (initialize (declare_locals ex_undefined))) = [(100, Fresh 10)]"
    by (simp_all add: ev)
  have pres: "\<forall>fid f ctx ins. symbolic ex_oracles fid = Some f \<longrightarrow>
                ctx_buffer_map (snd (f ctx ins)) = ctx_buffer_map ctx"
    by (simp add: ex_oracles_def)
  have two: "fst (initialize (declare_locals ex_two_buffers)) = Inr ()"
    and m: "new_buffer_map (snd (initialize (declare_locals ex_two_buffers))) =
              [(100, Fresh 11), (200, Fresh 10)]"
    by (simp_all add: ev)
  have bm: "buffer_map (state ex_two_buffers) = [(100, Orig 8), (200, Orig 0)]"
    by (simp add: ex_defs)
  from buffer_map_translated_before_dispatch [OF live(1), where orc = ex_oracles] bad
  have "fst (ToONNX ex_oracles ex_bad_buffer) = Inl DanglingReference \<and>
        calls (snd (ToONNX ex_oracles ex_bad_buffer)) = calls ex_bad_buffer"
    by blast
  moreover
  from buffer_map_translated_before_dispatch [OF live(2), where orc = ex_oracles] ok pres
  have "buffer_map (state (snd (ToONNX ex_oracles ex_undefined))) =
          new_buffer_map (snd (initialize (declare_locals ex_undefined)))"
    by blast
  moreover
  from buffer_map_translated_before_dispatch [OF live(3), where orc = ex_oracles] two
  have "distinct (map fst (buffer_map (state ex_two_buffers))) \<longrightarrow>
          list_all2 (\<lambda>kv kv'. fst kv' = fst kv \<and>
                       env (snd (initialize (declare_locals ex_two_buffers))) (snd kv) =
                         Some (Some (snd kv')))
            (buffer_map (state ex_two_buffers))
            (new_buffer_map (snd (initialize (declare_locals ex_two_buffers))))"
    by blast
  then have "env (snd (initialize (declare_locals ex_two_buffers))) (Orig 8) = Some (Some (Fresh 11)) \<and>
             env (snd (initialize (declare_locals ex_two_buffers))) (Orig 0) = Some (Some (Fresh 10))"
    unfolding bm m by simp
  ultimately show ?thesis using ok v c two m by simp
qed

text \<open>
  C10, as stated, fails. On an expired tracing state the pass throws the logic error
  of the expiry check, also when the buffer map holds a node that is not an input of
  the graph. And the symbolic of an autograd function is handed the new buffer map in
  its context: here it records the node it creates, a node of the new graph that is
  not an input, and the map that the returning pass installs holds that node.
\<close>

theorem buffer_map_translated_counterexample:
  "is_expired (state ex_expired_buffer) \<and>
   (100, Orig 6) \<in> set (buffer_map (state ex_expired_buffer)) \<and>
   Orig 6 \<notin> set (graph_inputs (graph (state ex_expired_buffer))) \<and>
   fst (ToONNX ex_oracles ex_expired_buffer) = Inl StaleTraceState \<and>
   fst (ToONNX ex_oracles ex_expired_buffer) \<noteq> Inl DanglingReference \<and>
   fst (ToONNX ex_oracles_buffer ex_batchnorm) = Inr () \<and>
   calls (snd (ToONNX ex_oracles_buffer ex_batchnorm)) = [Symbolic (Orig 10)] \<and>
   new_buffer_map (snd (initialize (declare_locals ex_batchnorm))) = [(100, Fresh 10)] \<and>
   graph_inputs (graph (state (snd (ToONNX ex_oracles_buffer ex_batchnorm)))) = [Fresh 10] \<and>
   graph_nodes (graph (state (snd (ToONNX ex_oracles_buffer ex_batchnorm)))) = [Fresh 11] \<and>
   buffer_map (state (snd (ToONNX ex_oracles_buffer ex_batchnorm))) =
     [(100, Fresh 10), (200, Fresh 11)]"
  by (simp add: ev)

end
